theory Spec2Isabelle
  imports Main "HOL-Library.Word"
begin

section \<open>The runtime bridge of assembly/runtime.ts\<close>

text \<open>
  A shallow embedding of the parts of \<^verbatim>\<open>assembly/runtime.ts\<close> that marshal header lists,
  read host-filled output slots, keep the context registry and correlate outbound http
  calls with their continuations.

  Conventions.
  \<^item> An \<^verbatim>\<open>ArrayBuffer\<close> is the list of its bytes; \<^verbatim>\<open>byteLength\<close> is \<open>length\<close>.
  \<^item> A value of type \<^verbatim>\<open>i32\<close> is an \<open>int\<close>, and every \<^verbatim>\<open>i32\<close> addition or multiplication is
    wrapped with \<open>i32\<close>; a \<^verbatim>\<open>u32\<close> or \<^verbatim>\<open>usize\<close> value is a \<open>nat\<close> below \<open>2 ^ 32\<close>, wrapped
    with \<open>u32\<close>.
  \<^item> A \<^verbatim>\<open>throw\<close> (which aborts the module) is the left injection of \<open>exn + 'a\<close>.
  \<^item> Names that end in an underscore in the source (\<^verbatim>\<open>http_calls_\<close>, \<^verbatim>\<open>createContext_\<close>)
    lose it here, and the field \<^verbatim>\<open>value\<close> of \<^verbatim>\<open>HeaderPair\<close> is \<open>val\<close>.
\<close>

subsection \<open>Machine integers, errors\<close>

type_synonym byte = "8 word"

type_synonym ArrayBuffer = "byte list"

definition i32 :: "int \<Rightarrow> int" where
  "i32 x = (x + 2147483648) mod 4294967296 - 2147483648"

definition u32 :: "int \<Rightarrow> nat" where
  "u32 x = nat (x mod 4294967296)"

datatype exn = Error string | RangeError string

definition andThen :: "exn + 'a \<Rightarrow> ('a \<Rightarrow> exn + 'b) \<Rightarrow> exn + 'b" where
  "andThen m f = (case m of Inl e \<Rightarrow> Inl e | Inr x \<Rightarrow> f x)"

subsection \<open>Buffers and typed-array views of the language runtime\<close>

text \<open>
  The standard library of the language is not part of the repository. Its buffers and
  views are modelled by their behaviour: \<^verbatim>\<open>new ArrayBuffer(n)\<close> is zero-filled and refuses a
  length beyond \<open>BLOCK_MAXSIZE\<close>; a view is a window on a buffer; \<^verbatim>\<open>wrap\<close> and element
  access outside the window raise \<^verbatim>\<open>RangeError\<close>; \<^verbatim>\<open>subarray\<close> and \<^verbatim>\<open>slice\<close> clamp their
  bounds, a negative bound counting from the end. All views that \<^verbatim>\<open>serializeHeaders\<close>
  makes alias the one buffer \<^verbatim>\<open>result\<close>, so a store through a view takes and returns that
  buffer.
\<close>

definition BLOCK_MAXSIZE :: nat where
  "BLOCK_MAXSIZE = 1073741808"

definition new_ArrayBuffer :: "int \<Rightarrow> exn + ArrayBuffer" where
  "new_ArrayBuffer len =
     (if u32 len > BLOCK_MAXSIZE then Inl (RangeError ''Invalid length'')
      else Inr (replicate (u32 len) 0))"

record view =
  byteOffset :: nat
  byteLength :: nat

definition u32_bytes :: "nat \<Rightarrow> byte list" where
  "u32_bytes n = [of_nat n, of_nat (n div 256), of_nat (n div 65536), of_nat (n div 16777216)]"

definition u32_value :: "byte list \<Rightarrow> nat" where
  "u32_value bs = unat (bs ! 0) + 256 * unat (bs ! 1) + 65536 * unat (bs ! 2)
                  + 16777216 * unat (bs ! 3)"

definition store_bytes :: "ArrayBuffer \<Rightarrow> nat \<Rightarrow> byte list \<Rightarrow> ArrayBuffer" where
  "store_bytes buf at bs = take at buf @ bs @ drop (at + length bs) buf"

definition Uint32Array_wrap :: "ArrayBuffer \<Rightarrow> int \<Rightarrow> int \<Rightarrow> exn + view" where
  "Uint32Array_wrap buf off len =
     (if off < 0 \<or> nat off > length buf \<or> off mod 4 \<noteq> 0
      then Inl (RangeError ''Index out of range'')
      else if len < 0 \<or> nat off + 4 * nat len > length buf
      then Inl (RangeError ''Invalid length'')
      else Inr \<lparr>byteOffset = nat off, byteLength = 4 * nat len\<rparr>)"

definition Uint8Array_wrap :: "ArrayBuffer \<Rightarrow> int \<Rightarrow> exn + view" where
  "Uint8Array_wrap buf off =
     (if off < 0 \<or> nat off > length buf
      then Inl (RangeError ''Index out of range'')
      else Inr \<lparr>byteOffset = nat off, byteLength = length buf - nat off\<rparr>)"

definition Uint32Array_set :: "view \<Rightarrow> int \<Rightarrow> nat \<Rightarrow> ArrayBuffer \<Rightarrow> exn + ArrayBuffer" where
  "Uint32Array_set v i x buf =
     (if i < 0 \<or> nat i \<ge> byteLength v div 4 then Inl (RangeError ''Index out of range'')
      else Inr (store_bytes buf (byteOffset v + 4 * nat i) (u32_bytes x)))"

definition Uint32Array_get :: "view \<Rightarrow> int \<Rightarrow> ArrayBuffer \<Rightarrow> exn + nat" where
  "Uint32Array_get v i buf =
     (if i < 0 \<or> nat i \<ge> byteLength v div 4 then Inl (RangeError ''Index out of range'')
      else Inr (u32_value (take 4 (drop (byteOffset v + 4 * nat i) buf))))"

definition Uint8Array_set :: "view \<Rightarrow> int \<Rightarrow> byte \<Rightarrow> ArrayBuffer \<Rightarrow> exn + ArrayBuffer" where
  "Uint8Array_set v i x buf =
     (if i < 0 \<or> nat i \<ge> byteLength v then Inl (RangeError ''Index out of range'')
      else Inr (store_bytes buf (byteOffset v + nat i) [x]))"

definition clamp_index :: "nat \<Rightarrow> int \<Rightarrow> nat" where
  "clamp_index len i = (if i < 0 then nat (max (int len + i) 0) else min (nat i) len)"

definition subarray :: "view \<Rightarrow> int \<Rightarrow> int \<Rightarrow> view" where
  "subarray v start stop =
     (let b = clamp_index (byteLength v) start;
          e = max (clamp_index (byteLength v) stop) b
      in \<lparr>byteOffset = byteOffset v + b, byteLength = e - b\<rparr>)"

definition ArrayBuffer_slice :: "ArrayBuffer \<Rightarrow> int \<Rightarrow> int \<Rightarrow> ArrayBuffer" where
  "ArrayBuffer_slice buf start stop =
     (let b = clamp_index (length buf) start;
          e = clamp_index (length buf) stop
      in take (e - b) (drop b buf))"

subsection \<open>The header codec\<close>

record HeaderPair =
  key :: ArrayBuffer
  val :: ArrayBuffer

type_synonym Headers = "HeaderPair list"

fun pairsSize_loop :: "Headers \<Rightarrow> int \<Rightarrow> int" where
  "pairsSize_loop [] sz = sz"
| "pairsSize_loop (header # rest) sz =
     pairsSize_loop rest
       (i32 (i32 (i32 (sz + 8) + i32 (int (length (key header)) + 1))
             + i32 (int (length (val header)) + 1)))"

definition pairsSize :: "Headers \<Rightarrow> int" where
  "pairsSize headers = pairsSize_loop headers 4"

text \<open>The first loop of \<^verbatim>\<open>serializeHeaders\<close>: the table of lengths.\<close>

fun write_sizes :: "view \<Rightarrow> int \<Rightarrow> Headers \<Rightarrow> ArrayBuffer \<Rightarrow> exn + ArrayBuffer" where
  "write_sizes sizes index [] result = Inr result"
| "write_sizes sizes index (header # rest) result =
     andThen (Uint32Array_set sizes index (length (key header)) result) (\<lambda>result.
     andThen (Uint32Array_set sizes (i32 (index + 1)) (length (val header)) result) (\<lambda>result.
     write_sizes sizes (i32 (i32 (index + 1) + 1)) rest result))"

text \<open>The byte-by-byte copy of one key or value into a window of \<^verbatim>\<open>data\<close>.\<close>

fun copy_bytes :: "view \<Rightarrow> int \<Rightarrow> byte list \<Rightarrow> ArrayBuffer \<Rightarrow> exn + ArrayBuffer" where
  "copy_bytes target i [] result = Inr result"
| "copy_bytes target i (b # bs) result =
     andThen (Uint8Array_set target i b result) (\<lambda>result.
     copy_bytes target (i32 (i + 1)) bs result)"

text \<open>The second loop: keys and values, each followed by a byte that is left as it is.\<close>

fun write_data :: "view \<Rightarrow> int \<Rightarrow> Headers \<Rightarrow> ArrayBuffer \<Rightarrow> exn + ArrayBuffer" where
  "write_data data currentOffset [] result = Inr result"
| "write_data data currentOffset (header # rest) result =
     (let keyData = subarray data currentOffset
                      (i32 (currentOffset + int (length (key header))))
      in andThen (copy_bytes keyData 0 (key header) result) (\<lambda>result.
         let currentOffset = i32 (currentOffset + i32 (int (length (key header)) + 1));
             valueData = subarray data currentOffset
                           (i32 (currentOffset + int (length (val header))))
         in andThen (copy_bytes valueData 0 (val header) result) (\<lambda>result.
            write_data data (i32 (currentOffset + i32 (int (length (val header)) + 1)))
              rest result)))"

definition serializeHeaders :: "Headers \<Rightarrow> exn + ArrayBuffer" where
  "serializeHeaders headers =
     andThen (new_ArrayBuffer (pairsSize headers)) (\<lambda>result.
     andThen (Uint32Array_wrap result 0 (i32 (1 + i32 (2 * int (length headers))))) (\<lambda>sizes.
     andThen (Uint32Array_set sizes 0 (length headers) result) (\<lambda>result.
     andThen (write_sizes sizes 1 headers result) (\<lambda>result.
     andThen (Uint8Array_wrap result (int (byteLength sizes))) (\<lambda>data.
     write_data data 0 headers result)))))"

text \<open>
  The loop of \<^verbatim>\<open>deserializeHeaders\<close>, on the number of headers still to read. \<open>sizes\<close> is a
  view on \<open>headers\<close>; \<open>data\<close> is a copy of its payload.
\<close>

fun read_pairs :: "nat \<Rightarrow> view \<Rightarrow> ArrayBuffer \<Rightarrow> ArrayBuffer \<Rightarrow> int \<Rightarrow> int \<Rightarrow> Headers
                     \<Rightarrow> exn + Headers" where
  "read_pairs 0 sizes headers data sizeIndex dataIndex result = Inr result"
| "read_pairs (Suc n) sizes headers data sizeIndex dataIndex result =
     andThen (Uint32Array_get sizes sizeIndex headers) (\<lambda>keySize.
     let sizeIndex = i32 (sizeIndex + 1);
         header_key_data = ArrayBuffer_slice data dataIndex (i32 (dataIndex + int keySize));
         dataIndex = i32 (dataIndex + int (u32 (int keySize + 1)))
     in andThen (Uint32Array_get sizes sizeIndex headers) (\<lambda>valueSize.
        let sizeIndex = i32 (sizeIndex + 1);
            header_value_data = ArrayBuffer_slice data dataIndex (i32 (dataIndex + int valueSize));
            dataIndex = i32 (dataIndex + int (u32 (int valueSize + 1)))
        in read_pairs n sizes headers data sizeIndex dataIndex
             (result @ [\<lparr>key = header_key_data, val = header_value_data\<rparr>])))"

definition deserializeHeaders :: "ArrayBuffer \<Rightarrow> exn + Headers" where
  "deserializeHeaders headers =
     andThen (Uint32Array_wrap headers 0 1) (\<lambda>count.
     andThen (Uint32Array_get count 0 headers) (\<lambda>numheaders.
     andThen (Uint32Array_wrap headers 4 (i32 (int (u32 (2 * int numheaders))))) (\<lambda>sizes.
     let data = ArrayBuffer_slice headers (i32 (int (u32 (4 * int (u32 (1 + int (u32 (2 * int numheaders))))))))
                  (int BLOCK_MAXSIZE)
     in read_pairs numheaders sizes headers data 0 0 [])))"

subsection \<open>Status codes and enumerations\<close>

datatype LogLevelValues = trace | debug | info | warn | error | critical

datatype WasmResultValues =
    Ok | NotFound | BadArgument | SerializationFailure | ParseFailure | BadExpression
  | InvalidMemoryAccess | Empty | CasMismatch | ResultMismatch | InternalFailure
  | BrokenConnection

fun WasmResultValues_code :: "WasmResultValues \<Rightarrow> nat" where
  "WasmResultValues_code Ok = 0"
| "WasmResultValues_code NotFound = 1"
| "WasmResultValues_code BadArgument = 2"
| "WasmResultValues_code SerializationFailure = 3"
| "WasmResultValues_code ParseFailure = 4"
| "WasmResultValues_code BadExpression = 5"
| "WasmResultValues_code InvalidMemoryAccess = 6"
| "WasmResultValues_code Empty = 7"
| "WasmResultValues_code CasMismatch = 8"
| "WasmResultValues_code ResultMismatch = 9"
| "WasmResultValues_code InternalFailure = 10"
| "WasmResultValues_code BrokenConnection = 11"

datatype HeaderMapTypeValues =
    RequestHeaders | RequestTrailers | ResponseHeaders | ResponseTrailers
  | GrpcCreateInitialMetadata | GrpcReceiveInitialMetadata | GrpcReceiveTrailingMetadata
  | HttpCallResponseHeaders | HttpCallResponseTrailers

datatype BufferTypeValues =
    HttpRequestBody | HttpResponseBody | NetworkDownstreamData | NetworkUpstreamData
  | HttpCallResponseBody | GrpcReceiveBuffer

subsection \<open>Strings of the language runtime\<close>

text \<open>
  A string is the list of the bytes of its UTF-8 form, so \<^verbatim>\<open>String.UTF8.encode\<close> and
  \<^verbatim>\<open>String.UTF8.decode\<close> only change the element type. \<^verbatim>\<open>toString\<close> of an unsigned number is
  its decimal form, of an \<^verbatim>\<open>ArrayBuffer\<close> the fixed text of the library, of an array the
  elements joined with a comma.
\<close>

definition String_UTF8_encode :: "string \<Rightarrow> ArrayBuffer" where
  "String_UTF8_encode s = map of_char s"

definition String_UTF8_decode :: "ArrayBuffer \<Rightarrow> string" where
  "String_UTF8_decode b = map (\<lambda>x. char_of (unat x)) b"

fun u32_toString :: "nat \<Rightarrow> string" where
  "u32_toString n =
     (if n < 10 then [char_of (48 + n)]
      else u32_toString (n div 10) @ [char_of (48 + n mod 10)])"

fun join :: "string \<Rightarrow> string list \<Rightarrow> string" where
  "join sep [] = []"
| "join sep [x] = x"
| "join sep (x # y # ys) = x @ sep @ join sep (y # ys)"

definition ArrayBuffer_toString :: "ArrayBuffer \<Rightarrow> string" where
  "ArrayBuffer_toString b = ''[object ArrayBuffer]''"

definition HeaderPair_toString :: "HeaderPair \<Rightarrow> string" where
  "HeaderPair_toString p = ArrayBuffer_toString (key p) @ '':'' @ ArrayBuffer_toString (val p)"

definition Headers_toString :: "Headers \<Rightarrow> string" where
  "Headers_toString hs = join '','' (map HeaderPair_toString hs)"

subsection \<open>The map of the language runtime\<close>

text \<open>
  \<^verbatim>\<open>Map<K, V>\<close> keeps its entries in insertion order: an association list with one entry
  for a key. \<^verbatim>\<open>get\<close> of a key that is absent throws.
\<close>

type_synonym ('k, 'v) Map = "('k \<times> 'v) list"

definition Map_has :: "('k, 'v) Map \<Rightarrow> 'k \<Rightarrow> bool" where
  "Map_has m k = (map_of m k \<noteq> None)"

definition Map_get :: "('k, 'v) Map \<Rightarrow> 'k \<Rightarrow> exn + 'v" where
  "Map_get m k = (case map_of m k of None \<Rightarrow> Inl (Error ''Key does not exist'')
                  | Some v \<Rightarrow> Inr v)"

fun Map_set :: "('k, 'v) Map \<Rightarrow> 'k \<Rightarrow> 'v \<Rightarrow> ('k, 'v) Map" where
  "Map_set [] k v = [(k, v)]"
| "Map_set ((k', v') # m) k v = (if k' = k then (k, v) # m else (k', v') # Map_set m k v)"

definition Map_delete :: "('k, 'v) Map \<Rightarrow> 'k \<Rightarrow> ('k, 'v) Map" where
  "Map_delete m k = filter (\<lambda>e. fst e \<noteq> k) m"

definition Map_keys :: "('k, 'v) Map \<Rightarrow> 'k list" where
  "Map_keys m = map fst m"

definition Map_values :: "('k, 'v) Map \<Rightarrow> 'v list" where
  "Map_values m = map snd m"

subsection \<open>Output slots\<close>

text \<open>
  \<^verbatim>\<open>ArrayBufferReference\<close> is the pair of cells that the host fills through \<^verbatim>\<open>bufferPtr()\<close>
  and \<^verbatim>\<open>sizePtr()\<close>; its field \<^verbatim>\<open>size\<close> is \<open>size_slot\<close> here. The part of the module's
  memory that marshalling touches is the one global slot and the buffers that are
  allocated: \<open>objects m ptr = Some (bytes, k)\<close> says that a buffer with these bytes is
  allocated at \<open>ptr\<close> and that \<open>k + 1\<close> references hold it, \<open>None\<close> that nothing is allocated
  there.
\<close>

record ArrayBufferReference =
  buffer :: nat
  size_slot :: nat

record Marshal =
  globalArrayBufferReference :: ArrayBufferReference
  objects :: "nat \<Rightarrow> (ArrayBuffer \<times> nat) option"

text \<open>
  Modelled from the spec: \<^verbatim>\<open>free\<close> of \<^verbatim>\<open>./malloc\<close>, which is not among the sources, and the
  reference counting behind it. The spec says that the core calls a malloc/free-style
  allocator, that the host-side allocation is released once and must never be referenced
  again, and that reading a slot twice after one fill is undefined; the comment in
  \<^verbatim>\<open>toArrayBuffer\<close> says that the buffer is reference counted, so that the release there
  does not free what the variable \<^verbatim>\<open>array\<close> retains. Hence: taking a reference to an
  allocated buffer adds one to its count, \<^verbatim>\<open>free\<close> takes one away and frees the buffer with
  the last one, and either of them on an address where nothing is allocated stops the
  module with \<open>released_access\<close>.
\<close>

definition released_access :: exn where
  "released_access = Error ''access to a released buffer''"

definition retain :: "nat \<Rightarrow> Marshal \<Rightarrow> exn + ArrayBuffer \<times> Marshal" where
  "retain ptr m =
     (case objects m ptr of
        None \<Rightarrow> Inl released_access
      | Some (bytes, k) \<Rightarrow> Inr (bytes, m\<lparr>objects := (objects m)(ptr \<mapsto> (bytes, Suc k))\<rparr>))"

definition free :: "nat \<Rightarrow> Marshal \<Rightarrow> exn + Marshal" where
  "free ptr m =
     (case objects m ptr of
        None \<Rightarrow> Inl released_access
      | Some (bytes, k) \<Rightarrow>
          (case k of
             0 \<Rightarrow> Inr (m\<lparr>objects := (objects m)(ptr := None)\<rparr>)
           | Suc j \<Rightarrow> Inr (m\<lparr>objects := (objects m)(ptr \<mapsto> (bytes, j))\<rparr>)))"

text \<open>
  \<^verbatim>\<open>toArrayBuffer\<close>: the variable \<^verbatim>\<open>array\<close> takes a reference to the buffer at the address in
  the slot, the address is released, and the reference of \<^verbatim>\<open>array\<close> goes to the caller. The
  slot is only read.
\<close>

definition toArrayBuffer ::
    "ArrayBufferReference \<Rightarrow> Marshal \<Rightarrow> (exn + ArrayBuffer) \<times> Marshal" where
  "toArrayBuffer this m =
     (if size_slot this = 0 then (Inr [], m)
      else case retain (buffer this) m of
             Inl e \<Rightarrow> (Inl e, m)
           | Inr (array, m) \<Rightarrow>
               (case free (buffer this) m of
                  Inl e \<Rightarrow> (Inl e, m)
                | Inr m \<Rightarrow> (Inr array, m)))"

text \<open>
  The boundary calls are the host's: each is a parameter. A call that is given the
  addresses of the slot may change the marshalling state and nothing else;
  \<^verbatim>\<open>proxy_http_call\<close> yields its status and the content of the token cell after the call.
\<close>

record Host =
  proxy_get_property :: "ArrayBuffer \<Rightarrow> Marshal \<Rightarrow> WasmResultValues \<times> Marshal"
  proxy_get_header_map_value ::
    "HeaderMapTypeValues \<Rightarrow> ArrayBuffer \<Rightarrow> Marshal \<Rightarrow> WasmResultValues \<times> Marshal"
  proxy_get_header_map_pairs :: "HeaderMapTypeValues \<Rightarrow> Marshal \<Rightarrow> WasmResultValues \<times> Marshal"
  proxy_get_buffer_bytes ::
    "BufferTypeValues \<Rightarrow> nat \<Rightarrow> nat \<Rightarrow> Marshal \<Rightarrow> WasmResultValues \<times> Marshal"
  proxy_http_call ::
    "ArrayBuffer \<Rightarrow> ArrayBuffer \<Rightarrow> ArrayBuffer \<Rightarrow> ArrayBuffer \<Rightarrow> nat \<Rightarrow> WasmResultValues \<times> nat"

definition get_header_map_value ::
    "Host \<Rightarrow> HeaderMapTypeValues \<Rightarrow> ArrayBuffer \<Rightarrow> Marshal \<Rightarrow> (exn + ArrayBuffer) \<times> Marshal" where
  "get_header_map_value host typ k m =
     (let (result, m) = proxy_get_header_map_value host typ k m
      in if result = Ok then toArrayBuffer (globalArrayBufferReference m) m
         else (Inr [], m))"

definition get_header_map_flat_pairs ::
    "Host \<Rightarrow> HeaderMapTypeValues \<Rightarrow> Marshal \<Rightarrow> (exn + ArrayBuffer) \<times> Marshal" where
  "get_header_map_flat_pairs host typ m =
     (let (result, m) = proxy_get_header_map_pairs host typ m
      in if result = Ok then toArrayBuffer (globalArrayBufferReference m) m
         else (Inr [], m))"

definition get_buffer_bytes ::
    "Host \<Rightarrow> BufferTypeValues \<Rightarrow> nat \<Rightarrow> nat \<Rightarrow> Marshal \<Rightarrow> (exn + ArrayBuffer) \<times> Marshal" where
  "get_buffer_bytes host typ start len m =
     (let (result, m) = proxy_get_buffer_bytes host typ start len m
      in if result = Ok then toArrayBuffer (globalArrayBufferReference m) m
         else (Inr [], m))"

subsection \<open>Contexts and the state of the module\<close>

text \<open>
  Objects live in a store and are named by their address. Of a context the model keeps
  the fields that the registry and the call correlation read or write; the hook fields
  other than \<^verbatim>\<open>createContext_\<close> are left out. A function value of the source is an index
  into the module's function table: a continuation \<open>cb\<close> is that index, and what plugin
  code does when it is called is not modelled, the call itself is recorded in \<open>invoked\<close>
  and leaves the state of the runtime as it is. A root context factory and the
  \<^verbatim>\<open>createContext_\<close> hook yield the fields of the object they construct; the object is
  allocated at the next free address.
\<close>

type_synonym ref = nat

record HttpCallback =
  origin_context :: ref
  cb :: nat

record BaseContext =
  context_id :: nat

record Context = BaseContext +
  root_context :: ref

record RootContext = BaseContext +
  createContext :: "ref \<Rightarrow> nat \<Rightarrow> Context"
  configuration :: string
  http_calls :: "(nat, HttpCallback) Map"

datatype obj = RootContextObj RootContext | ContextObj Context

text \<open>
  The calls into plugin code: a continuation with the originating context and the three
  handles, a root context factory (named by the name it is registered under) with the
  context id, and the \<^verbatim>\<open>createContext_\<close> hook of a root context with the context id.
\<close>

datatype call =
    Callback nat ref nat nat nat
  | Factory string nat
  | CreateContext ref nat

record Runtime =
  marshal :: Marshal
  heap :: "ref \<Rightarrow> obj option"
  next_ref :: ref
  context_map :: "(nat, ref) Map"
  root_context_factory_map :: "(string, nat \<Rightarrow> RootContext) Map"
  logged :: "(LogLevelValues \<times> string) list"
  invoked :: "call list"

definition new_object :: "obj \<Rightarrow> Runtime \<Rightarrow> ref \<times> Runtime" where
  "new_object x s =
     (next_ref s, s\<lparr>heap := (heap s)(next_ref s \<mapsto> x), next_ref := Suc (next_ref s)\<rparr>)"

definition obj_context_id :: "obj \<Rightarrow> nat" where
  "obj_context_id x = (case x of RootContextObj r \<Rightarrow> context_id r | ContextObj c \<Rightarrow> context_id c)"

definition set_context_id :: "ref \<Rightarrow> nat \<Rightarrow> Runtime \<Rightarrow> Runtime" where
  "set_context_id r v s =
     (case heap s r of
        Some (RootContextObj x) \<Rightarrow> s\<lparr>heap := (heap s)(r \<mapsto> RootContextObj (x\<lparr>context_id := v\<rparr>))\<rparr>
      | Some (ContextObj x) \<Rightarrow> s\<lparr>heap := (heap s)(r \<mapsto> ContextObj (x\<lparr>context_id := v\<rparr>))\<rparr>
      | None \<Rightarrow> s)"

definition this_root :: "Runtime \<Rightarrow> ref \<Rightarrow> RootContext option" where
  "this_root s this = (case heap s this of Some (RootContextObj r) \<Rightarrow> Some r | _ \<Rightarrow> None)"

definition set_http_calls :: "ref \<Rightarrow> (nat, HttpCallback) Map \<Rightarrow> Runtime \<Rightarrow> Runtime" where
  "set_http_calls this m s =
     (case heap s this of
        Some (RootContextObj r) \<Rightarrow> s\<lparr>heap := (heap s)(this \<mapsto> RootContextObj (r\<lparr>http_calls := m\<rparr>))\<rparr>
      | _ \<Rightarrow> s)"

text \<open>
  A method whose receiver is not a root context object, and a read through a reference to
  no object, are outside what the typed source can do; the model stops there with
  \<open>unreachable\<close>.
\<close>

definition unreachable :: exn where
  "unreachable = Error ''unreachable''"

text \<open>
  \<^verbatim>\<open>log\<close> hands the level and the message to the host's log sink and ignores the status
  that comes back; the model keeps the messages in \<open>logged\<close>.
\<close>

definition log :: "LogLevelValues \<Rightarrow> string \<Rightarrow> Runtime \<Rightarrow> Runtime" where
  "log level logMessage s = s\<lparr>logged := logged s @ [(level, logMessage)]\<rparr>"

definition CHECK_RESULT :: "WasmResultValues \<Rightarrow> Runtime \<Rightarrow> (exn + unit) \<times> Runtime" where
  "CHECK_RESULT c s =
     (if c \<noteq> Ok
      then (Inl (Error '':(''), log critical (u32_toString (WasmResultValues_code c)) s)
      else (Inr (), s))"

definition get_property :: "Host \<Rightarrow> string \<Rightarrow> Runtime \<Rightarrow> (exn + ArrayBuffer) \<times> Runtime" where
  "get_property host path s =
     (let (c, m) = proxy_get_property host (String_UTF8_encode path) (marshal s);
          s = s\<lparr>marshal := m\<rparr>
      in case CHECK_RESULT c s of
           (Inl e, s) \<Rightarrow> (Inl e, s)
         | (Inr _, s) \<Rightarrow>
             let (r, m) = toArrayBuffer (globalArrayBufferReference (marshal s)) (marshal s)
             in (r, s\<lparr>marshal := m\<rparr>))"

subsection \<open>The call correlation of a root context\<close>

definition new_RootContext :: "nat \<Rightarrow> RootContext" where
  "new_RootContext cid =
     \<lparr>context_id = cid,
      createContext = (\<lambda>thiz c. \<lparr>context_id = c, root_context = thiz\<rparr>),
      configuration = [],
      http_calls = []\<rparr>"

fun call_callbacks :: "HttpCallback list \<Rightarrow> Runtime \<Rightarrow> Runtime" where
  "call_callbacks [] s = s"
| "call_callbacks (c # callbacks) s =
     call_callbacks callbacks
       (s\<lparr>invoked := invoked s @ [Callback (cb c) (origin_context c) 0 0 0]\<rparr>)"

text \<open>
  \<^verbatim>\<open>cancelPendingRequests\<close> calls every pending continuation with the handles 0, 0, 0 and
  clears the table; its loop over the keys has an empty body.
\<close>

definition cancelPendingRequests :: "ref \<Rightarrow> Runtime \<Rightarrow> (exn + unit) \<times> Runtime" where
  "cancelPendingRequests this s =
     (case this_root s this of
        None \<Rightarrow> (Inl unreachable, s)
      | Some r \<Rightarrow>
          let s = log debug (''context id: '' @ u32_toString (context_id r)
                              @ '': cancelPendingRequests()'') s;
              callbacks = Map_values (http_calls r);
              s = call_callbacks callbacks s;
              s = set_http_calls this [] s
          in (Inr (), s))"

definition onDone :: "ref \<Rightarrow> Runtime \<Rightarrow> (exn + bool) \<times> Runtime" where
  "onDone this s =
     (case this_root s this of
        None \<Rightarrow> (Inl unreachable, s)
      | Some r \<Rightarrow>
          let s = log debug (''context id: '' @ u32_toString (context_id r) @ '': onDone()'') s
          in case cancelPendingRequests this s of
               (Inl e, s) \<Rightarrow> (Inl e, s)
             | (Inr _, s) \<Rightarrow> (Inr True, s))"

definition httpCall ::
    "Host \<Rightarrow> ref \<Rightarrow> string \<Rightarrow> Headers \<Rightarrow> ArrayBuffer \<Rightarrow> Headers \<Rightarrow> nat \<Rightarrow> ref \<Rightarrow> nat \<Rightarrow> Runtime
     \<Rightarrow> (exn + WasmResultValues) \<times> Runtime" where
  "httpCall host this cluster headers body trailers timeout_milliseconds origin f s =
     (case this_root s this of
        None \<Rightarrow> (Inl unreachable, s)
      | Some r \<Rightarrow>
          let s = log debug (''context id: '' @ u32_toString (context_id r)
                    @ '': httpCall(cluster: '' @ cluster
                    @ '', headers:'' @ Headers_toString headers
                    @ '', body:'' @ ArrayBuffer_toString body
                    @ '', trailers:'' @ Headers_toString trailers @ '')'') s
          in case serializeHeaders headers of
               Inl e \<Rightarrow> (Inl e, s)
             | Inr header_pairs \<Rightarrow>
                (case serializeHeaders trailers of
                   Inl e \<Rightarrow> (Inl e, s)
                 | Inr trailer_pairs \<Rightarrow>
                     let (result, token) =
                           proxy_http_call host (String_UTF8_encode cluster) header_pairs body
                             trailer_pairs timeout_milliseconds;
                         s = log debug (''Http call executed with result: ''
                               @ u32_toString (WasmResultValues_code result)) s
                     in if result = Ok
                        then let s = log debug (''set token: '' @ u32_toString token @ '' on ''
                                       @ u32_toString (context_id r)) s;
                                 s = set_http_calls this
                                       (Map_set (http_calls r) token
                                          \<lparr>origin_context = origin, cb = f\<rparr>) s
                             in (Inr result, s)
                        else (Inr result, s)))"

definition onHttpCallResponse ::
    "ref \<Rightarrow> nat \<Rightarrow> nat \<Rightarrow> nat \<Rightarrow> nat \<Rightarrow> Runtime \<Rightarrow> (exn + unit) \<times> Runtime" where
  "onHttpCallResponse this token headers body_size trailers s =
     (case this_root s this of
        None \<Rightarrow> (Inl unreachable, s)
      | Some r \<Rightarrow>
          let s = log debug (''context id: '' @ u32_toString (context_id r)
                    @ '': onHttpCallResponse(token: '' @ u32_toString token
                    @ '', headers:'' @ u32_toString headers
                    @ '', body_size:'' @ u32_toString body_size
                    @ '', trailers:'' @ u32_toString trailers @ '')'') s;
              s = log debug (''http_calls_: '' @ u32_toString (length (http_calls r))) s;
              s = log debug (''get token: '' @ u32_toString token @ '' from ''
                    @ u32_toString (context_id r)) s;
              s = log debug (''context_map: ''
                    @ join '', '' (map u32_toString (Map_keys (context_map s)))) s
          in if Map_has (http_calls r) token
             then (case Map_get (http_calls r) token of
                     Inl e \<Rightarrow> (Inl e, s)
                   | Inr callback \<Rightarrow>
                      (case heap s (origin_context callback) of
                         None \<Rightarrow> (Inl unreachable, s)
                       | Some origin \<Rightarrow>
                           let s = log debug (''onHttpCallResponse: calling callback for context id: ''
                                     @ u32_toString (obj_context_id origin)) s;
                               s = set_http_calls this (Map_delete (http_calls r) token) s;
                               s = s\<lparr>invoked := invoked s
                                     @ [Callback (cb callback) (origin_context callback)
                                          headers body_size trailers]\<rparr>
                           in (Inr (), s)))
             else (Inr (), log error (''onHttpCallResponse: Token '' @ u32_toString token
                                       @ '' not found.'') s))"

subsection \<open>The context registry\<close>

definition get_plugin_root_id :: "Host \<Rightarrow> Runtime \<Rightarrow> (exn + string) \<times> Runtime" where
  "get_plugin_root_id host s =
     (case get_property host ''plugin_root_id'' s of
        (Inl e, s) \<Rightarrow> (Inl e, s)
      | (Inr root_id, s) \<Rightarrow>
          if length root_id = 0 then (Inr [], s)
          else (Inr (String_UTF8_decode root_id), s))"

text \<open>
  \<^verbatim>\<open>getRootContext\<close> casts what the registry holds to \<^verbatim>\<open>RootContext\<close>. The cast is checked when
  the module runs: for an object of another class the module stops.
\<close>

definition invalid_cast :: exn where
  "invalid_cast = Error ''invalid downcast''"

definition getRootContext :: "nat \<Rightarrow> Runtime \<Rightarrow> exn + ref" where
  "getRootContext cid s =
     (case Map_get (context_map s) cid of
        Inl e \<Rightarrow> Inl e
      | Inr r \<Rightarrow> (case heap s r of Some (RootContextObj x) \<Rightarrow> Inr r | _ \<Rightarrow> Inl invalid_cast))"

definition ensureRootContext :: "Host \<Rightarrow> nat \<Rightarrow> Runtime \<Rightarrow> (exn + ref) \<times> Runtime" where
  "ensureRootContext host root_context_id s =
     (let s = log debug (''ensureRootContext(root_context_id: ''
                @ u32_toString root_context_id @ '')'') s;
          s = log debug (''Current context_map: ''
                @ join '', '' (map u32_toString (Map_keys (context_map s)))) s
      in if Map_has (context_map s) root_context_id
         then let s = log debug (''Returning root context for id: ''
                        @ u32_toString root_context_id) s
              in (getRootContext root_context_id s, s)
         else case get_plugin_root_id host s of
                (Inl e, s) \<Rightarrow> (Inl e, s)
              | (Inr root_id, s) \<Rightarrow>
                  let s = log debug (''Registering new root context for '' @ root_id
                            @ '' with id: '' @ u32_toString root_context_id) s
                  in if \<not> Map_has (root_context_factory_map s) root_id
                     then (Inl (Error (''Missing root context factory for root id: '' @ root_id)), s)
                     else case Map_get (root_context_factory_map s) root_id of
                            Inl e \<Rightarrow> (Inl e, s)
                          | Inr root_context_func \<Rightarrow>
                              let s = s\<lparr>invoked := invoked s @ [Factory root_id root_context_id]\<rparr>;
                                  (root_context, s) =
                                    new_object (RootContextObj (root_context_func root_context_id)) s;
                                  s = set_context_id root_context root_context_id s;
                                  s = s\<lparr>context_map :=
                                         Map_set (context_map s) root_context_id root_context\<rparr>
                              in (Inr root_context, s))"

definition ensureContext :: "Host \<Rightarrow> nat \<Rightarrow> nat \<Rightarrow> Runtime \<Rightarrow> (exn + unit) \<times> Runtime" where
  "ensureContext host cid root_context_id s =
     (let s = log debug (''ensureContext(context_id: '' @ u32_toString cid
                @ '', root_context_id: '' @ u32_toString root_context_id @ '')'') s;
          s = log debug (''Current context_map: ''
                @ join '', '' (map u32_toString (Map_keys (context_map s)))) s
      in case ensureRootContext host root_context_id s of
           (Inl e, s) \<Rightarrow> (Inl e, s)
         | (Inr root, s) \<Rightarrow>
             if Map_has (context_map s) cid
             then (Inr (), log debug (''Existing context id: '' @ u32_toString cid) s)
             else let s = log debug (''Registering new context with context_id: ''
                            @ u32_toString cid @ '' under root_context: ''
                            @ u32_toString root_context_id) s
                  in case this_root s root of
                       None \<Rightarrow> (Inl unreachable, s)
                     | Some r \<Rightarrow>
                         let s = s\<lparr>invoked := invoked s @ [CreateContext root cid]\<rparr>;
                             (context, s) = new_object (ContextObj (createContext r root cid)) s;
                             s = s\<lparr>context_map := Map_set (context_map s) cid context\<rparr>;
                             s = log debug (''Updated context_map: ''
                                   @ join '', '' (map u32_toString (Map_keys (context_map s)))) s
                         in (Inr (), s))"

definition deleteContext :: "nat \<Rightarrow> Runtime \<Rightarrow> Runtime" where
  "deleteContext cid s = s\<lparr>context_map := Map_delete (context_map s) cid\<rparr>"

definition registerRootContext :: "(nat \<Rightarrow> RootContext) \<Rightarrow> string \<Rightarrow> Runtime \<Rightarrow> Runtime" where
  "registerRootContext root_context_factory name s =
     s\<lparr>root_context_factory_map := Map_set (root_context_factory_map s) name root_context_factory\<rparr>"

subsection \<open>The wire layout of a header list\<close>

text \<open>
  The layout that the spec describes, written as a function of the list: the count, the
  table of lengths, and the keys and values with a zero byte after each. \<open>encoded_size\<close>
  is the number of bytes that \<^verbatim>\<open>pairsSize\<close> adds up when no addition wraps.
\<close>

primrec payload_size :: "Headers \<Rightarrow> nat" where
  "payload_size [] = 0"
| "payload_size (h # hs) = (length (key h) + 1) + (length (val h) + 1) + payload_size hs"

definition encoded_size :: "Headers \<Rightarrow> nat" where
  "encoded_size hs = 4 + 8 * length hs + payload_size hs"

primrec size_table :: "Headers \<Rightarrow> byte list" where
  "size_table [] = []"
| "size_table (h # hs) = u32_bytes (length (key h)) @ u32_bytes (length (val h)) @ size_table hs"

primrec payload :: "Headers \<Rightarrow> byte list" where
  "payload [] = []"
| "payload (h # hs) = key h @ [0] @ val h @ [0] @ payload hs"

definition wire_layout :: "Headers \<Rightarrow> ArrayBuffer" where
  "wire_layout hs = u32_bytes (length hs) @ size_table hs @ payload hs"

text \<open>The list of the spec's scenario, the layout that the spec gives for it, and the layout
  with the lengths that the keys and values have.\<close>

definition scenario_headers :: Headers where
  "scenario_headers =
     [\<lparr>key = String_UTF8_encode ''x-a'', val = String_UTF8_encode ''1''\<rparr>,
      \<lparr>key = String_UTF8_encode ''x-b'', val = String_UTF8_encode []\<rparr>]"

definition scenario_payload :: "byte list" where
  "scenario_payload =
     String_UTF8_encode ''x-a'' @ [0] @ String_UTF8_encode ''1'' @ [0]
     @ String_UTF8_encode ''x-b'' @ [0] @ [0]"

definition layout_of :: "nat \<Rightarrow> nat list \<Rightarrow> byte list \<Rightarrow> ArrayBuffer" where
  "layout_of count lens bytes = u32_bytes count @ concat (map u32_bytes lens) @ bytes"

definition spec_layout :: ArrayBuffer where
  "spec_layout = layout_of 2 [1, 1, 1, 0] scenario_payload"

definition code_layout :: ArrayBuffer where
  "code_layout = layout_of 2 [3, 1, 3, 0] scenario_payload"

subsection \<open>Scenarios and observations\<close>

text \<open>
  What the properties below speak of. \<open>pending\<close> is the table of pending calls of a root
  context. \<open>issue\<close> runs a sequence of \<^verbatim>\<open>httpCall\<close> on one root context, each with the
  host that answers it, and collects the results; \<open>call_token\<close> is the token that the host
  gives to a call; \<open>cancellation\<close> is the invocation that a cancelled call expects. A
  registry is well formed when every entry names an allocated object. \<open>created_contexts\<close>
  are the calls made to \<^verbatim>\<open>createContext_\<close>.
\<close>

definition pending :: "Runtime \<Rightarrow> ref \<Rightarrow> (nat, HttpCallback) Map" where
  "pending s this = (case this_root s this of Some r \<Rightarrow> http_calls r | None \<Rightarrow> [])"

datatype http_call =
  HttpCall (call_host: Host) (call_cluster: string) (call_headers: Headers)
    (call_body: ArrayBuffer) (call_trailers: Headers) (call_timeout: nat)
    (call_origin: ref) (call_cb: nat)

fun issue :: "ref \<Rightarrow> http_call list \<Rightarrow> Runtime \<Rightarrow> (exn + WasmResultValues) list \<times> Runtime" where
  "issue this [] s = ([], s)"
| "issue this (c # calls) s =
     (let (result, s) = httpCall (call_host c) this (call_cluster c) (call_headers c)
                          (call_body c) (call_trailers c) (call_timeout c)
                          (call_origin c) (call_cb c) s;
          (results, s) = issue this calls s
      in (result # results, s))"

definition call_token :: "http_call \<Rightarrow> nat" where
  "call_token c =
     (case (serializeHeaders (call_headers c), serializeHeaders (call_trailers c)) of
        (Inr header_pairs, Inr trailer_pairs) \<Rightarrow>
          snd (proxy_http_call (call_host c) (String_UTF8_encode (call_cluster c)) header_pairs
                 (call_body c) trailer_pairs (call_timeout c))
      | _ \<Rightarrow> 0)"

definition cancellation :: "http_call \<Rightarrow> call" where
  "cancellation c = Callback (call_cb c) (call_origin c) 0 0 0"

definition registry_wf :: "Runtime \<Rightarrow> bool" where
  "registry_wf s = (\<forall>e \<in> set (context_map s). snd e < next_ref s)"

fun is_CreateContext :: "call \<Rightarrow> bool" where
  "is_CreateContext (CreateContext root cid) = True"
| "is_CreateContext c = False"

definition created_contexts :: "Runtime \<Rightarrow> call list" where
  "created_contexts s = filter is_CreateContext (invoked s)"

text \<open>
  Concrete hosts and states for the instances: a host that refuses every call, a host that
  answers every call with \<open>Ok\<close> and fills the slot with the given bytes at address 64, a
  memory whose slot was filled once with three bytes, a registry with one factory
  registered under the name \<open>p\<close>, a root context at address 0 with no pending call, the
  same with one pending call, two calls that the host accepts with tokens 7 and 8, two
  calls that the host accepts with the same token 7, and a list with one key of the largest
  length that a buffer can have.
\<close>

definition filled_memory :: Marshal where
  "filled_memory =
     \<lparr>globalArrayBufferReference = \<lparr>buffer = 64, size_slot = 3\<rparr>,
      objects = (\<lambda>a. if a = 64 then Some ([1, 2, 3], 0) else None)\<rparr>"

definition failing_host :: Host where
  "failing_host =
     \<lparr>proxy_get_property = (\<lambda>path m. (NotFound, m)),
      proxy_get_header_map_value = (\<lambda>typ k m. (NotFound, m)),
      proxy_get_header_map_pairs = (\<lambda>typ m. (InternalFailure, m)),
      proxy_get_buffer_bytes = (\<lambda>typ start len m. (BadArgument, m)),
      proxy_http_call = (\<lambda>cluster hs body ts timeout. (InternalFailure, 0))\<rparr>"

definition fill :: "nat \<Rightarrow> ArrayBuffer \<Rightarrow> Marshal \<Rightarrow> Marshal" where
  "fill ptr bytes m =
     m\<lparr>globalArrayBufferReference := \<lparr>buffer = ptr, size_slot = length bytes\<rparr>,
       objects := (\<lambda>a. if a = ptr then Some (bytes, 0) else objects m a)\<rparr>"

definition answering_host :: "ArrayBuffer \<Rightarrow> nat \<Rightarrow> Host" where
  "answering_host bytes token =
     \<lparr>proxy_get_property = (\<lambda>path m. (Ok, fill 64 bytes m)),
      proxy_get_header_map_value = (\<lambda>typ k m. (Ok, fill 64 bytes m)),
      proxy_get_header_map_pairs = (\<lambda>typ m. (Ok, fill 64 bytes m)),
      proxy_get_buffer_bytes = (\<lambda>typ start len m. (Ok, fill 64 bytes m)),
      proxy_http_call = (\<lambda>cluster hs body ts timeout. (Ok, token))\<rparr>"

definition empty_Runtime :: Runtime where
  "empty_Runtime =
     \<lparr>marshal = \<lparr>globalArrayBufferReference = \<lparr>buffer = 0, size_slot = 0\<rparr>,
                 objects = (\<lambda>a. None)\<rparr>,
      heap = (\<lambda>r. None), next_ref = 0, context_map = [],
      root_context_factory_map = [], logged = [], invoked = []\<rparr>"

definition plugin_host :: Host where
  "plugin_host = answering_host (String_UTF8_encode ''p'') 7"

definition registry_start :: Runtime where
  "registry_start = registerRootContext new_RootContext ''p'' empty_Runtime"

definition root_state :: Runtime where
  "root_state =
     empty_Runtime\<lparr>heap := (\<lambda>r. if r = 0 then Some (RootContextObj (new_RootContext 1)) else None),
                   next_ref := 1, context_map := [(1, 0)]\<rparr>"

definition waiting_state :: Runtime where
  "waiting_state = set_http_calls 0 [(7, \<lparr>origin_context = 0, cb = 3\<rparr>)] root_state"

definition same_token_calls :: "http_call list" where
  "same_token_calls =
     [HttpCall (answering_host [] 7) ''cluster'' [] [] [] 10 0 3,
      HttpCall (answering_host [] 7) ''cluster'' [] [] [] 10 0 4]"

definition oversized_headers :: Headers where
  "oversized_headers = [\<lparr>key = replicate BLOCK_MAXSIZE 0, val = []\<rparr>]"

definition two_calls :: "http_call list" where
  "two_calls =
     [HttpCall (answering_host [] 7) ''cluster'' [] [] [] 10 0 3,
      HttpCall (answering_host [] 8) ''cluster'' [] [] [] 10 0 4]"

section \<open>Properties\<close>

subsection \<open>Integers and stores\<close>

lemma i32_id: "- 2147483648 \<le> x \<Longrightarrow> x < 2147483648 \<Longrightarrow> i32 x = x"
  by (simp add: i32_def)

lemma u32_id: "0 \<le> x \<Longrightarrow> x < 4294967296 \<Longrightarrow> u32 x = nat x"
  by (simp add: u32_def)

lemma andThen_Inr [simp]: "andThen (Inr x) f = f x"
  by (simp add: andThen_def)

lemma andThen_Inl [simp]: "andThen (Inl e) f = Inl e"
  by (simp add: andThen_def)

lemma length_u32_bytes [simp]: "length (u32_bytes n) = 4"
  by (simp add: u32_bytes_def)

lemma length_size_table [simp]: "length (size_table hs) = 8 * length hs"
  by (induction hs) simp_all

lemma length_payload [simp]: "length (payload hs) = payload_size hs"
  by (induction hs) simp_all

lemma u32_value_bytes: "n < 4294967296 \<Longrightarrow> u32_value (u32_bytes n) = n"
proof -
  assume "n < 4294967296"
  then have a: "n div 16777216 mod 256 = n div 16777216" by simp
  have d2: "n div 65536 = n div 256 div 256" and d3: "n div 16777216 = n div 256 div 256 div 256"
    by (simp_all add: div_mult2_eq)
  have e1: "n = 256 * (n div 256) + n mod 256"
    and e2: "n div 256 = 256 * (n div 256 div 256) + n div 256 mod 256"
    and e3: "n div 256 div 256 = 256 * (n div 256 div 256 div 256) + n div 256 div 256 mod 256"
    by simp_all
  have b: "n mod 256 + 256 * (n div 256 mod 256) + 65536 * (n div 65536 mod 256)
           + 16777216 * (n div 16777216) = n"
    unfolding d2 d3 using e1 e2 e3 by linarith
  show ?thesis
    using a b by (simp add: u32_value_def u32_bytes_def unat_of_nat)
qed

lemma pairsSize_loop_exact:
  "0 \<le> sz \<Longrightarrow> sz + int (8 * length hs + payload_size hs) < 2147483648
   \<Longrightarrow> pairsSize_loop hs sz = sz + int (8 * length hs + payload_size hs)"
proof (induction hs arbitrary: sz)
  case Nil
  then show ?case by simp
next
  case (Cons h hs)
  let ?k = "int (length (key h))" and ?v = "int (length (val h))"
  from Cons.prems have b: "sz + 8 + (?k + 1) + (?v + 1) < 2147483648" by simp
  have step: "i32 (i32 (i32 (sz + 8) + i32 (?k + 1)) + i32 (?v + 1)) = sz + 8 + (?k + 1) + (?v + 1)"
    using Cons.prems(1) b by (simp add: i32_id)
  show ?case
    using Cons.prems Cons.IH [of "sz + 8 + (?k + 1) + (?v + 1)"]
    by (simp add: step)
qed

lemma pairsSize_exact:
  "encoded_size hs < 2147483648 \<Longrightarrow> pairsSize hs = int (encoded_size hs)"
  using pairsSize_loop_exact [of 4 hs] by (simp add: pairsSize_def encoded_size_def)

lemma length_store_bytes:
  "at + length bs \<le> length buf \<Longrightarrow> length (store_bytes buf at bs) = length buf"
  by (simp add: store_bytes_def)

lemma store_bytes_append:
  "at + length xs + length ys \<le> length buf
   \<Longrightarrow> store_bytes (store_bytes buf at xs) (at + length xs) ys = store_bytes buf at (xs @ ys)"
proof -
  assume a: "at + length xs + length ys \<le> length buf"
  let ?mid = "take at buf @ xs @ drop (at + length xs) buf"
  from a have t: "take (at + length xs) ?mid = take at buf @ xs"
    by simp
  from a have d: "drop (at + length xs + length ys) ?mid = drop (at + length xs + length ys) buf"
    by (simp add: add.commute add.left_commute)
  show ?thesis
    unfolding store_bytes_def t d by (simp add: add.assoc)
qed

lemma store_bytes_zeros:
  "length pre = at \<Longrightarrow> length bs \<le> m
   \<Longrightarrow> store_bytes (pre @ replicate m 0) at bs = pre @ bs @ replicate (m - length bs) 0"
  by (simp add: store_bytes_def)

lemma copy_bytes_exact:
  "0 \<le> i \<Longrightarrow> nat i + length bs \<le> byteLength t \<Longrightarrow> byteOffset t + byteLength t \<le> length buf
   \<Longrightarrow> byteLength t < 2147483648
   \<Longrightarrow> copy_bytes t i bs buf = Inr (store_bytes buf (byteOffset t + nat i) bs)"
proof (induction bs arbitrary: i buf)
  case Nil
  then show ?case by (simp add: store_bytes_def)
next
  case (Cons b bs)
  let ?at = "byteOffset t + nat i"
  let ?buf = "store_bytes buf ?at [b]"
  from Cons.prems have set: "Uint8Array_set t i b buf = Inr ?buf"
    by (simp add: Uint8Array_set_def)
  from Cons.prems have i1: "i32 (i + 1) = i + 1" by (simp add: i32_id)
  from Cons.prems have len: "length ?buf = length buf"
    by (simp add: length_store_bytes)
  from Cons.prems have "copy_bytes t (i + 1) bs ?buf = Inr (store_bytes ?buf (byteOffset t + nat (i + 1)) bs)"
    by (intro Cons.IH) (simp_all add: len)
  moreover from Cons.prems have "nat (i + 1) = nat i + 1" by simp
  moreover from Cons.prems have "store_bytes ?buf (?at + length [b]) bs = store_bytes buf ?at ([b] @ bs)"
    by (intro store_bytes_append) simp
  ultimately show ?case
    by (simp add: set i1 add.assoc)
qed

lemma write_sizes_exact:
  "byteOffset sizes = 0 \<Longrightarrow> 0 \<le> index \<Longrightarrow> 4 * (nat index + 2 * length hs) \<le> byteLength sizes
   \<Longrightarrow> byteLength sizes \<le> length buf \<Longrightarrow> byteLength sizes < 2147483648
   \<Longrightarrow> write_sizes sizes index hs buf = Inr (store_bytes buf (4 * nat index) (size_table hs))"
proof (induction hs arbitrary: index buf)
  case Nil
  then show ?case by (simp add: store_bytes_def)
next
  case (Cons h hs)
  let ?at = "4 * nat index"
  let ?b1 = "store_bytes buf ?at (u32_bytes (length (key h)))"
  let ?b2 = "store_bytes ?b1 (?at + 4) (u32_bytes (length (val h)))"
  from Cons.prems have i1: "i32 (index + 1) = index + 1" and i2: "i32 (2 + index) = index + 2"
    by (simp_all add: i32_id)
  from Cons.prems have s1: "Uint32Array_set sizes index (length (key h)) buf = Inr ?b1"
    by (auto simp add: Uint32Array_set_def)
  from Cons.prems have l1: "length ?b1 = length buf"
    by (simp add: length_store_bytes)
  from Cons.prems have room: "nat index + 2 \<le> byteLength sizes div 4" by simp
  from Cons.prems room have s2: "Uint32Array_set sizes (index + 1) (length (val h)) ?b1 = Inr ?b2"
    by (simp add: Uint32Array_set_def nat_add_distrib add.commute)
  from Cons.prems have l2: "length ?b2 = length buf"
    by (simp add: length_store_bytes l1)
  from Cons.prems have rec: "write_sizes sizes (index + 2) hs ?b2
      = Inr (store_bytes ?b2 (4 * nat (index + 2)) (size_table hs))"
    by (intro Cons.IH) (simp_all add: l2 nat_add_distrib)
  from Cons.prems have n2: "4 * nat (index + 2) = ?at + 8" by (simp add: nat_add_distrib)
  from Cons.prems have a1: "?b2 = store_bytes buf ?at (u32_bytes (length (key h)) @ u32_bytes (length (val h)))"
    using store_bytes_append [of ?at "u32_bytes (length (key h))" "u32_bytes (length (val h))" buf]
    by simp
  from Cons.prems have a2: "store_bytes ?b2 (?at + 8) (size_table hs)
      = store_bytes buf ?at ((u32_bytes (length (key h)) @ u32_bytes (length (val h))) @ size_table hs)"
    unfolding a1
    using store_bytes_append [of ?at "u32_bytes (length (key h)) @ u32_bytes (length (val h))" "size_table hs" buf]
    by simp
  show ?case
    using rec a2 by (simp add: s1 i1 i2 s2 n2)
qed

lemma subarray_window:
  "0 \<le> off \<Longrightarrow> nat off + n \<le> byteLength v
   \<Longrightarrow> subarray v off (off + int n) = \<lparr>byteOffset = byteOffset v + nat off, byteLength = n\<rparr>"
  by (simp add: subarray_def clamp_index_def Let_def min_def max_def nat_add_distrib)

lemma write_data_exact:
  "0 \<le> off \<Longrightarrow> length pre = byteOffset data + nat off \<Longrightarrow> payload_size hs \<le> m
   \<Longrightarrow> byteLength data = nat off + m \<Longrightarrow> length pre + m < 2147483648
   \<Longrightarrow> write_data data off hs (pre @ replicate m 0)
       = Inr (pre @ payload hs @ replicate (m - payload_size hs) 0)"
proof (induction hs arbitrary: off pre m)
  case Nil
  then show ?case by simp
next
  case (Cons h hs)
  let ?k = "key h" and ?v = "val h"
  let ?lk = "length (key h)" and ?lv = "length (val h)"
  let ?buf = "pre @ replicate m 0"
  from Cons.prems have sz: "?lk + 1 + (?lv + 1) + payload_size hs \<le> m" by simp
  have o1: "i32 (off + int ?lk) = off + int ?lk"
    using Cons.prems sz by (intro i32_id) simp_all
  have o2: "i32 (int ?lk + 1) = int ?lk + 1"
    using Cons.prems sz by (intro i32_id) simp_all
  have o3: "i32 (off + (int ?lk + 1)) = off + (int ?lk + 1)"
    using Cons.prems sz by (intro i32_id) simp_all
  let ?off1 = "off + (int ?lk + 1)"
  have o4: "i32 (?off1 + int ?lv) = ?off1 + int ?lv"
    using Cons.prems sz by (intro i32_id) simp_all
  have o5: "i32 (int ?lv + 1) = int ?lv + 1"
    using Cons.prems sz by (intro i32_id) simp_all
  let ?off2 = "?off1 + (int ?lv + 1)"
  have o6: "i32 ?off2 = ?off2"
    using Cons.prems sz by (intro i32_id) simp_all
  have kd: "subarray data off (off + int ?lk)
            = \<lparr>byteOffset = byteOffset data + nat off, byteLength = ?lk\<rparr>"
    using Cons.prems sz by (intro subarray_window) simp_all
  have vd: "subarray data ?off1 (?off1 + int ?lv)
            = \<lparr>byteOffset = byteOffset data + nat ?off1, byteLength = ?lv\<rparr>"
    using Cons.prems sz by (intro subarray_window) (simp_all add: nat_add_distrib)
  have c1: "copy_bytes \<lparr>byteOffset = byteOffset data + nat off, byteLength = ?lk\<rparr> 0 ?k ?buf
            = Inr (store_bytes ?buf (byteOffset data + nat off) ?k)"
    using copy_bytes_exact [of 0 ?k "\<lparr>byteOffset = byteOffset data + nat off, byteLength = ?lk\<rparr>" ?buf]
      Cons.prems sz by simp
  have b1: "store_bytes ?buf (byteOffset data + nat off) ?k = pre @ ?k @ replicate (m - ?lk) 0"
    using Cons.prems sz by (intro store_bytes_zeros) simp_all
  have r1: "m - ?lk = Suc (m - ?lk - 1)"
    using sz by simp
  let ?pre1 = "pre @ ?k @ [0]"
  let ?m1 = "m - ?lk - 1"
  have b1': "pre @ ?k @ replicate (m - ?lk) 0 = ?pre1 @ replicate ?m1 0"
    by (subst r1) simp
  have n1: "nat ?off1 = nat off + ?lk + 1"
    using Cons.prems by (simp add: nat_add_distrib)
  have c2: "copy_bytes \<lparr>byteOffset = byteOffset data + nat ?off1, byteLength = ?lv\<rparr> 0 ?v
              (?pre1 @ replicate ?m1 0)
            = Inr (store_bytes (?pre1 @ replicate ?m1 0) (byteOffset data + nat ?off1) ?v)"
    using copy_bytes_exact [of 0 ?v "\<lparr>byteOffset = byteOffset data + nat ?off1, byteLength = ?lv\<rparr>"
        "?pre1 @ replicate ?m1 0"]
      Cons.prems sz by (simp add: n1)
  have b2: "store_bytes (?pre1 @ replicate ?m1 0) (byteOffset data + nat ?off1) ?v
            = ?pre1 @ ?v @ replicate (?m1 - ?lv) 0"
    using Cons.prems sz by (intro store_bytes_zeros) (simp_all add: n1)
  have r2: "?m1 - ?lv = Suc (?m1 - ?lv - 1)"
    using sz by simp
  let ?pre2 = "?pre1 @ ?v @ [0]"
  let ?m2 = "?m1 - ?lv - 1"
  have b2': "?pre1 @ ?v @ replicate (?m1 - ?lv) 0 = ?pre2 @ replicate ?m2 0"
    by (subst r2) simp
  have n2: "nat ?off2 = nat off + ?lk + 1 + ?lv + 1"
    using Cons.prems by (simp add: nat_add_distrib)
  have rec: "write_data data ?off2 hs (?pre2 @ replicate ?m2 0)
             = Inr (?pre2 @ payload hs @ replicate (?m2 - payload_size hs) 0)"
    using Cons.prems sz by (intro Cons.IH) (simp_all add: n2)
  have fin: "?pre2 @ payload hs @ replicate (?m2 - payload_size hs) 0
             = pre @ payload (h # hs) @ replicate (m - payload_size (h # hs)) 0"
    by simp
  have "write_data data off (h # hs) ?buf = write_data data ?off2 hs (?pre2 @ replicate ?m2 0)"
    unfolding write_data.simps Let_def o1 o2 o3 kd c1 andThen_Inr b1 b1' o4 o5 o6 vd c2 b2 b2'
    by (rule refl)
  then show ?case
    unfolding rec fin by simp
qed

lemma serializeHeaders_layout:
  assumes fit: "encoded_size hs \<le> BLOCK_MAXSIZE"
  shows "serializeHeaders hs = Inr (wire_layout hs)"
proof -
  let ?n = "length hs"
  let ?N = "encoded_size hs"
  let ?zeros = "replicate ?N (0::byte)"
  let ?sizes = "\<lparr>byteOffset = 0, byteLength = 4 * (1 + 2 * ?n)\<rparr>"
  from fit have small: "?N < 1073741809" by (simp add: BLOCK_MAXSIZE_def)
  have N: "?N = 4 + 8 * ?n + payload_size hs" by (simp add: encoded_size_def)
  from small have ps: "pairsSize hs = int ?N" by (intro pairsSize_exact) simp
  from small have un: "u32 (int ?N) = ?N" by (simp add: u32_id)
  have alloc: "new_ArrayBuffer (pairsSize hs) = Inr ?zeros"
    using fit by (simp add: new_ArrayBuffer_def ps un)
  have len: "i32 (1 + i32 (2 * int ?n)) = int (1 + 2 * ?n)"
    using small N by (simp add: i32_id)
  have nn: "nat (int (1 + 2 * ?n)) = 1 + 2 * ?n" by (rule nat_int)
  have wrap: "Uint32Array_wrap ?zeros 0 (int (1 + 2 * ?n)) = Inr ?sizes"
    unfolding Uint32Array_wrap_def nn using N by simp
  let ?b1 = "store_bytes ?zeros 0 (u32_bytes ?n)"
  have set0: "Uint32Array_set ?sizes 0 ?n ?zeros = Inr ?b1"
    by (simp add: Uint32Array_set_def)
  have l1: "length ?b1 = ?N"
    using N by (simp add: length_store_bytes)
  have ws: "write_sizes ?sizes 1 hs ?b1 = Inr (store_bytes ?b1 (4 * nat 1) (size_table hs))"
    using small N l1 by (intro write_sizes_exact) simp_all
  let ?pre = "u32_bytes ?n @ size_table hs"
  have st: "store_bytes ?b1 (4 * nat 1) (size_table hs) = store_bytes ?zeros 0 ?pre"
    using store_bytes_append [of 0 "u32_bytes ?n" "size_table hs" ?zeros] N by simp
  have z: "store_bytes ?zeros 0 ?pre = ?pre @ replicate (payload_size hs) 0"
    using store_bytes_zeros [of "[]" 0 ?pre ?N] N by simp
  let ?b2 = "?pre @ replicate (payload_size hs) 0"
  let ?data = "\<lparr>byteOffset = 4 * (1 + 2 * ?n), byteLength = payload_size hs\<rparr>"
  have bl: "nat (int (byteLength ?sizes)) = 4 * (1 + 2 * ?n)" by simp
  have wrap8: "Uint8Array_wrap ?b2 (int (byteLength ?sizes)) = Inr ?data"
    unfolding Uint8Array_wrap_def bl by simp
  have wd: "write_data ?data 0 hs ?b2
            = Inr (?pre @ payload hs @ replicate (payload_size hs - payload_size hs) 0)"
    using small N by (intro write_data_exact) simp_all
  show ?thesis
    unfolding serializeHeaders_def alloc andThen_Inr len wrap set0 ws st z wrap8 wd
    by (simp add: wire_layout_def)
qed

lemma Uint32Array_get_at:
  "length pre = byteOffset v + 4 * nat i \<Longrightarrow> 0 \<le> i \<Longrightarrow> nat i < byteLength v div 4
   \<Longrightarrow> x < 4294967296
   \<Longrightarrow> Uint32Array_get v i (pre @ u32_bytes x @ post) = Inr x"
  by (simp add: Uint32Array_get_def u32_value_bytes)

lemma ArrayBuffer_slice_at:
  "length dpre = nat b \<Longrightarrow> 0 \<le> b
   \<Longrightarrow> ArrayBuffer_slice (dpre @ xs @ post) b (b + int (length xs)) = xs"
  by (simp add: ArrayBuffer_slice_def clamp_index_def Let_def nat_add_distrib min_def)

lemma read_pairs_exact:
  "headers = pre @ size_table rest @ post
   \<Longrightarrow> length pre = byteOffset sizes + 4 * nat sizeIndex \<Longrightarrow> 0 \<le> sizeIndex
   \<Longrightarrow> 4 * (nat sizeIndex + 2 * length rest) \<le> byteLength sizes
   \<Longrightarrow> byteLength sizes < 2147483648
   \<Longrightarrow> data = dpre @ payload rest \<Longrightarrow> length dpre = nat dataIndex \<Longrightarrow> 0 \<le> dataIndex
   \<Longrightarrow> length data < 2147483648
   \<Longrightarrow> read_pairs (length rest) sizes headers data sizeIndex dataIndex acc = Inr (acc @ rest)"
proof (induction rest arbitrary: pre dpre sizeIndex dataIndex acc)
  case Nil
  then show ?case by simp
next
  case (Cons h rest)
  let ?lk = "length (key h)" and ?lv = "length (val h)"
  from Cons.prems have dl: "nat dataIndex + ?lk + 1 + ?lv + 1 + payload_size rest < 2147483648"
    by simp
  from Cons.prems have room: "nat sizeIndex + 2 \<le> byteLength sizes div 4" by simp
  have hd1: "headers = pre @ u32_bytes ?lk @ (u32_bytes ?lv @ size_table rest @ post)"
    using Cons.prems(1) by simp
  have g1: "Uint32Array_get sizes sizeIndex headers = Inr ?lk"
    unfolding hd1 using Cons.prems room dl by (intro Uint32Array_get_at) simp_all
  have s1: "i32 (sizeIndex + 1) = sizeIndex + 1" and s2: "i32 (sizeIndex + 1 + 1) = sizeIndex + 2"
    using Cons.prems room by (simp_all add: i32_id)
  have hd2: "headers = (pre @ u32_bytes ?lk) @ u32_bytes ?lv @ (size_table rest @ post)"
    using Cons.prems(1) by simp
  have g2: "Uint32Array_get sizes (sizeIndex + 1) headers = Inr ?lv"
    unfolding hd2 using Cons.prems room dl
    by (intro Uint32Array_get_at) (simp_all add: nat_add_distrib)
  have d1: "i32 (dataIndex + int ?lk) = dataIndex + int ?lk"
    using Cons.prems dl by (intro i32_id) simp_all
  have u1: "u32 (int ?lk + 1) = ?lk + 1"
    using dl by (simp add: u32_id nat_add_distrib)
  let ?di1 = "dataIndex + int (?lk + 1)"
  have d2: "i32 ?di1 = ?di1"
    using Cons.prems dl by (intro i32_id) simp_all
  have d3: "i32 (?di1 + int ?lv) = ?di1 + int ?lv"
    using Cons.prems dl by (intro i32_id) simp_all
  have u2: "u32 (int ?lv + 1) = ?lv + 1"
    using dl by (simp add: u32_id nat_add_distrib)
  let ?di2 = "?di1 + int (?lv + 1)"
  have d4: "i32 ?di2 = ?di2"
    using Cons.prems dl by (intro i32_id) simp_all
  have da1: "data = dpre @ key h @ ([0] @ val h @ [0] @ payload rest)"
    using Cons.prems by simp
  have k: "ArrayBuffer_slice data dataIndex (dataIndex + int ?lk) = key h"
    unfolding da1 using Cons.prems by (intro ArrayBuffer_slice_at) simp_all
  have da2: "data = (dpre @ key h @ [0]) @ val h @ ([0] @ payload rest)"
    using Cons.prems by simp
  have v: "ArrayBuffer_slice data ?di1 (?di1 + int ?lv) = val h"
    unfolding da2 using Cons.prems by (intro ArrayBuffer_slice_at) (simp_all add: nat_add_distrib)
  have hd3: "headers = (pre @ u32_bytes ?lk @ u32_bytes ?lv) @ size_table rest @ post"
    using Cons.prems(1) by simp
  have da3: "data = (dpre @ key h @ [0] @ val h @ [0]) @ payload rest"
    using Cons.prems by simp
  have rec: "read_pairs (length rest) sizes headers data (sizeIndex + 2) ?di2
               (acc @ [\<lparr>key = key h, val = val h\<rparr>])
             = Inr ((acc @ [\<lparr>key = key h, val = val h\<rparr>]) @ rest)"
    using hd3 _ _ _ _ da3
  proof (rule Cons.IH)
    show "length (pre @ u32_bytes ?lk @ u32_bytes ?lv) = byteOffset sizes + 4 * nat (sizeIndex + 2)"
      using Cons.prems by (simp add: nat_add_distrib)
    show "0 \<le> sizeIndex + 2" using Cons.prems by simp
    show "4 * (nat (sizeIndex + 2) + 2 * length rest) \<le> byteLength sizes"
      using Cons.prems by (simp add: nat_add_distrib)
    show "byteLength sizes < 2147483648" using Cons.prems by simp
    show "length (dpre @ key h @ [0] @ val h @ [0]) = nat ?di2"
      using Cons.prems by (simp add: nat_add_distrib)
    show "0 \<le> ?di2" using Cons.prems by simp
    show "length data < 2147483648" using Cons.prems by simp
  qed
  have hh: "\<lparr>key = key h, val = val h\<rparr> = h" by simp
  have step: "read_pairs (length (h # rest)) sizes headers data sizeIndex dataIndex acc
        = read_pairs (length rest) sizes headers data (sizeIndex + 2) ?di2
               (acc @ [\<lparr>key = key h, val = val h\<rparr>])"
    unfolding length_Cons read_pairs.simps g1 andThen_Inr Let_def s1 g2 s2 d1 k u1 d2 d3 v u2 d4
    by simp
  show ?case
    using rec unfolding step by simp
qed

lemma deserializeHeaders_layout:
  assumes fit: "encoded_size hs \<le> BLOCK_MAXSIZE"
  shows "deserializeHeaders (wire_layout hs) = Inr hs"
proof -
  let ?n = "length hs"
  let ?L = "wire_layout hs"
  from fit have small: "encoded_size hs < 1073741809" by (simp add: BLOCK_MAXSIZE_def)
  have N: "encoded_size hs = 4 + 8 * ?n + payload_size hs" by (simp add: encoded_size_def)
  have lenL: "length ?L = 4 + 8 * ?n + payload_size hs" by (simp add: wire_layout_def)
  let ?count = "\<lparr>byteOffset = 0, byteLength = 4\<rparr>"
  have w1: "Uint32Array_wrap ?L 0 1 = Inr ?count"
    by (simp add: Uint32Array_wrap_def lenL)
  have g0: "Uint32Array_get ?count 0 ?L = Inr ?n"
    using Uint32Array_get_at [of "[]" ?count 0 ?n "size_table hs @ payload hs"] small N
    by (simp add: wire_layout_def)
  have m1: "i32 (int (u32 (2 * int ?n))) = int (2 * ?n)"
    using small N by (simp add: u32_id i32_id)
  let ?sizes = "\<lparr>byteOffset = 4, byteLength = 4 * (2 * ?n)\<rparr>"
  have n2: "nat (int (2 * ?n)) = 2 * ?n" by (rule nat_int)
  have w2: "Uint32Array_wrap ?L 4 (int (2 * ?n)) = Inr ?sizes"
    unfolding Uint32Array_wrap_def n2 by (simp add: lenL)
  have m2: "i32 (int (u32 (4 * int (u32 (1 + int (u32 (2 * int ?n))))))) = int (4 + 8 * ?n)"
    using small N by (simp add: u32_id i32_id)
  have sl: "ArrayBuffer_slice ?L (int (4 + 8 * ?n)) (int BLOCK_MAXSIZE) = payload hs"
    using fit N by (simp add: ArrayBuffer_slice_def clamp_index_def lenL wire_layout_def)
  have rp: "read_pairs (length hs) ?sizes ?L (payload hs) 0 0 [] = Inr ([] @ hs)"
  proof (rule read_pairs_exact [where pre = "u32_bytes ?n" and post = "payload hs" and dpre = "[]"])
    show "?L = u32_bytes ?n @ size_table hs @ payload hs" by (simp add: wire_layout_def)
    show "length (payload hs) < 2147483648" using small N by simp
    show "byteLength ?sizes < 2147483648" using small N by simp
  qed simp_all
  show ?thesis
    unfolding deserializeHeaders_def w1 andThen_Inr g0 m1 w2 m2 Let_def sl rp by simp
qed

lemma andThen_weak_cong: "m = m' \<Longrightarrow> andThen m f = andThen m' f"
  by simp

text \<open>
  A list whose encoding would be longer than the runtime allocates has no encoding:
  \<^verbatim>\<open>serializeHeaders\<close> throws.
\<close>

lemma serializeHeaders_too_large:
  assumes big: "BLOCK_MAXSIZE < encoded_size hs" and rep: "encoded_size hs < 2147483648"
  shows "serializeHeaders hs = Inl (RangeError ''Invalid length'')"
proof -
  from rep have ps: "pairsSize hs = int (encoded_size hs)"
    by (rule pairsSize_exact)
  from rep have un: "u32 (int (encoded_size hs)) = encoded_size hs"
    by (simp add: u32_id)
  show ?thesis
    using big by (simp add: serializeHeaders_def new_ArrayBuffer_def ps un)
qed

subsection \<open>The header codec\<close>

text \<open>
  C1, as the spec states it, fails: not every list has an encoding. For the list with one
  key of the largest length that a buffer can have, \<^verbatim>\<open>serializeHeaders\<close> throws and there is
  nothing to decode.
\<close>

theorem header_codec_round_trip_counterexample:
  "serializeHeaders oversized_headers = Inl (RangeError ''Invalid length'')"
proof -
  have sz: "encoded_size oversized_headers = BLOCK_MAXSIZE + 14"
    by (simp add: encoded_size_def oversized_headers_def)
  show ?thesis
    by (rule serializeHeaders_too_large) (simp_all add: sz BLOCK_MAXSIZE_def)
qed

text \<open>
  C1, amended. For every header list whose encoded size, the sum that \<^verbatim>\<open>pairsSize\<close>
  computes, is at most the largest length of a buffer, the empty list and empty keys and
  values included, \<^verbatim>\<open>serializeHeaders\<close> returns a buffer and \<^verbatim>\<open>deserializeHeaders\<close> of that
  buffer returns the list, in order and with the same contents.
\<close>

theorem header_codec_round_trip:
  "encoded_size headers \<le> BLOCK_MAXSIZE
   \<Longrightarrow> \<exists>buf. serializeHeaders headers = Inr buf \<and> deserializeHeaders buf = Inr headers"
  by (simp add: serializeHeaders_layout deserializeHeaders_layout)

text \<open>The amended C1 at a list with an empty key and empty values.\<close>

theorem header_codec_round_trip_witness:
  "encoded_size [\<lparr>key = [], val = []\<rparr>, \<lparr>key = [120, 45], val = []\<rparr>] \<le> BLOCK_MAXSIZE
   \<and> (\<exists>buf. serializeHeaders [\<lparr>key = [], val = []\<rparr>, \<lparr>key = [120, 45], val = []\<rparr>] = Inr buf
            \<and> deserializeHeaders buf = Inr [\<lparr>key = [], val = []\<rparr>, \<lparr>key = [120, 45], val = []\<rparr>])"
proof -
  have fit: "encoded_size [\<lparr>key = [], val = []\<rparr>, \<lparr>key = [120, 45], val = []\<rparr>] \<le> BLOCK_MAXSIZE"
    by (simp add: encoded_size_def BLOCK_MAXSIZE_def)
  show ?thesis
    using fit header_codec_round_trip [OF fit] by simp
qed

lemma scenario_fits: "encoded_size scenario_headers \<le> BLOCK_MAXSIZE"
  by (simp add: scenario_headers_def String_UTF8_encode_def encoded_size_def BLOCK_MAXSIZE_def)

lemma scenario_wire_layout: "wire_layout scenario_headers = code_layout"
  by (simp add: wire_layout_def scenario_headers_def code_layout_def layout_of_def
      scenario_payload_def String_UTF8_encode_def u32_bytes_def)

lemma code_layout_bytes:
  "code_layout = [2,0,0,0, 3,0,0,0, 1,0,0,0, 3,0,0,0, 0,0,0,0, 120,45,97,0, 49,0, 120,45,98,0, 0]"
  by (simp add: code_layout_def layout_of_def scenario_payload_def String_UTF8_encode_def
      u32_bytes_def)

lemma spec_layout_bytes:
  "spec_layout = [2,0,0,0, 1,0,0,0, 1,0,0,0, 1,0,0,0, 0,0,0,0, 120,45,97,0, 49,0, 120,45,98,0, 0]"
  by (simp add: spec_layout_def layout_of_def scenario_payload_def String_UTF8_encode_def
      u32_bytes_def)

lemma deserialize_spec_layout:
  "deserializeHeaders spec_layout
   = Inr [\<lparr>key = [120], val = [97]\<rparr>, \<lparr>key = [49], val = []\<rparr>]"
proof -
  let ?L = "[2,0,0,0, 1,0,0,0, 1,0,0,0, 1,0,0,0, 0,0,0,0, 120,45,97,0, 49,0, 120,45,98,0, 0] :: byte list"
  let ?D = "[120,45,97,0, 49,0, 120,45,98,0, 0] :: byte list"
  have w1: "Uint32Array_wrap ?L 0 1 = Inr \<lparr>byteOffset = 0, byteLength = 4\<rparr>"
    by (simp add: Uint32Array_wrap_def)
  have g0: "Uint32Array_get \<lparr>byteOffset = 0, byteLength = 4\<rparr> 0 ?L = Inr 2"
    by (simp add: Uint32Array_get_def u32_value_def)
  have m1: "i32 (int (u32 (2 * int 2))) = 4"
    by (simp add: u32_def i32_def)
  have w2: "Uint32Array_wrap ?L 4 4 = Inr \<lparr>byteOffset = 4, byteLength = 16\<rparr>"
    by (simp add: Uint32Array_wrap_def)
  have m2: "i32 (int (u32 (4 * int (u32 (1 + int (u32 (2 * int 2))))))) = 20"
    by (simp add: u32_def i32_def)
  have sl: "ArrayBuffer_slice ?L 20 (int BLOCK_MAXSIZE) = ?D"
    by (simp add: ArrayBuffer_slice_def clamp_index_def BLOCK_MAXSIZE_def)
  have rp: "read_pairs 2 \<lparr>byteOffset = 4, byteLength = 16\<rparr> ?L ?D 0 0 []
            = Inr [\<lparr>key = [120], val = [97]\<rparr>, \<lparr>key = [49], val = []\<rparr>]"
    unfolding numeral_2_eq_2
    apply (simp add: Uint32Array_get_def u32_value_def i32_def u32_def cong: andThen_weak_cong)
    apply (simp add: ArrayBuffer_slice_def clamp_index_def)
    done
  show ?thesis
    unfolding spec_layout_bytes deserializeHeaders_def w1 andThen_Inr g0 m1 w2 m2 Let_def sl rp
    by (rule refl)
qed

text \<open>
  C2, as the spec states it, fails: the code does not produce the length table
  \<open>[1, 1, 1, 0]\<close> for the scenario, and the buffer with that table does not decode to the
  scenario's list (it decodes to the pairs \<open>("x", "a")\<close> and \<open>("1", "")\<close>).
\<close>

theorem scenario_layout_counterexample:
  "serializeHeaders scenario_headers \<noteq> Inr spec_layout
   \<and> deserializeHeaders spec_layout \<noteq> Inr scenario_headers"
proof -
  have "serializeHeaders scenario_headers = Inr code_layout"
    using serializeHeaders_layout [OF scenario_fits] by (simp add: scenario_wire_layout)
  moreover have "code_layout \<noteq> spec_layout"
    by (simp add: code_layout_bytes spec_layout_bytes)
  moreover have "deserializeHeaders spec_layout \<noteq> Inr scenario_headers"
    by (simp add: deserialize_spec_layout scenario_headers_def String_UTF8_encode_def)
  ultimately show ?thesis by simp
qed

text \<open>
  C2, amended. Encoding the list of the keys and values ("x-a", "1") and ("x-b", "") gives
  the count 2, the length table 3, 1, 3, 0 (each key has three bytes) and the payload
  "x-a", 0, "1", 0, "x-b", 0, 0, every number a little-endian 32-bit word and every key and
  value followed by one zero byte that its length does not count; decoding that buffer
  gives the list back.
\<close>

theorem scenario_layout:
  "serializeHeaders scenario_headers = Inr code_layout
   \<and> code_layout = [2,0,0,0, 3,0,0,0, 1,0,0,0, 3,0,0,0, 0,0,0,0,
                     120,45,97,0, 49,0, 120,45,98,0, 0]
   \<and> deserializeHeaders code_layout = Inr scenario_headers"
proof -
  have "serializeHeaders scenario_headers = Inr code_layout"
    using serializeHeaders_layout [OF scenario_fits] by (simp add: scenario_wire_layout)
  moreover have "deserializeHeaders code_layout = Inr scenario_headers"
    using deserializeHeaders_layout [OF scenario_fits] by (simp add: scenario_wire_layout)
  ultimately show ?thesis by (simp add: code_layout_bytes)
qed

subsection \<open>Output slots\<close>

lemma objects_same:
  "objects m ptr = Some v \<Longrightarrow> m\<lparr>objects := (objects m)(ptr \<mapsto> v)\<rparr> = m"
  by (simp add: map_upd_triv)

lemma retain_free:
  "retain ptr m = Inr (bytes, m1) \<Longrightarrow> free ptr m1 = Inr m"
  by (auto simp add: retain_def free_def objects_same split: option.splits)

lemma toArrayBuffer_Inr:
  "toArrayBuffer this m = (Inr b, m1)
   \<Longrightarrow> m1 = m \<and> (size_slot this = 0 \<and> b = []
                \<or> size_slot this \<noteq> 0 \<and> (\<exists>k. objects m (buffer this) = Some (b, k)))"
  by (auto simp add: toArrayBuffer_def retain_def free_def objects_same
      split: if_splits option.splits)

lemma toArrayBuffer_allocated:
  "size_slot this \<noteq> 0 \<Longrightarrow> objects m (buffer this) = Some (b, k)
   \<Longrightarrow> toArrayBuffer this m = (Inr b, m)"
  by (simp add: toArrayBuffer_def retain_def free_def objects_same)

text \<open>
  Once the last reference to a converted buffer is dropped, a conversion of the slot that
  still holds its address stops the module.
\<close>

lemma toArrayBuffer_after_release:
  "size_slot this \<noteq> 0 \<Longrightarrow> objects m (buffer this) = Some (b, 0)
   \<Longrightarrow> free (buffer this) m = Inr m'
   \<Longrightarrow> fst (toArrayBuffer this m') = Inl released_access"
  by (auto simp add: toArrayBuffer_def retain_def free_def)

text \<open>
  C9, as the spec states it, fails. After one fill (address 64, three bytes) the first
  conversion returns the buffer. With that result still held, the second conversion
  returns the same buffer again: nothing is detected and nothing is raised.
\<close>

theorem toArrayBuffer_twice_counterexample:
  "fst (toArrayBuffer (globalArrayBufferReference filled_memory) filled_memory)
     = Inr [1, 2, 3]
   \<and> fst (toArrayBuffer (globalArrayBufferReference filled_memory)
            (snd (toArrayBuffer (globalArrayBufferReference filled_memory) filled_memory)))
       = Inr [1, 2, 3]"
  by (simp add: toArrayBuffer_def retain_def free_def filled_memory_def)

text \<open>
  C9, amended. \<^verbatim>\<open>toArrayBuffer\<close> performs no check and keeps no record of a conversion: a
  conversion that returns a buffer leaves the slot as it was, and a further conversion of
  the same slot, in any memory in which the buffer at the slot's address is still as the
  first conversion left it (the first result is still held), returns that buffer again as
  if it were a valid conversion. Calling it once per fill is an obligation on the caller,
  which the comment in the source states and the code does not enforce. Nothing is said
  here of a conversion after the first result was dropped.
\<close>

theorem toArrayBuffer_second_conversion_undetected:
  assumes first: "toArrayBuffer this m = (Inr b, m1)"
    and held: "objects m2 (buffer this) = objects m1 (buffer this)"
  shows "globalArrayBufferReference m1 = globalArrayBufferReference m
         \<and> fst (toArrayBuffer this m2) = Inr b"
proof -
  from toArrayBuffer_Inr [OF first] have same: "m1 = m"
    and alt: "size_slot this = 0 \<and> b = []
              \<or> size_slot this \<noteq> 0 \<and> (\<exists>k. objects m (buffer this) = Some (b, k))"
    by simp_all
  from alt show ?thesis
  proof
    assume "size_slot this = 0 \<and> b = []"
    then show ?thesis
      using same by (simp add: toArrayBuffer_def)
  next
    assume "size_slot this \<noteq> 0 \<and> (\<exists>k. objects m (buffer this) = Some (b, k))"
    then obtain k where "size_slot this \<noteq> 0" and "objects m2 (buffer this) = Some (b, k)"
      using held same by auto
    then have "toArrayBuffer this m2 = (Inr b, m2)"
      by (rule toArrayBuffer_allocated)
    then show ?thesis
      using same by simp
  qed
qed

text \<open>The amended C9 at the memory filled once with three bytes.\<close>

theorem toArrayBuffer_second_conversion_undetected_witness:
  "toArrayBuffer (globalArrayBufferReference filled_memory) filled_memory
     = (Inr [1, 2, 3], filled_memory)
   \<and> objects filled_memory (buffer (globalArrayBufferReference filled_memory))
       = Some ([1, 2, 3], 0)
   \<and> fst (toArrayBuffer (globalArrayBufferReference filled_memory) filled_memory)
       = Inr [1, 2, 3]"
proof -
  have first: "toArrayBuffer (globalArrayBufferReference filled_memory) filled_memory
     = (Inr [1, 2, 3], filled_memory)"
    by (rule toArrayBuffer_allocated) (simp_all add: filled_memory_def)
  have held: "objects filled_memory (buffer (globalArrayBufferReference filled_memory))
       = objects filled_memory (buffer (globalArrayBufferReference filled_memory))"
    by (rule refl)
  show ?thesis
    using first toArrayBuffer_second_conversion_undetected [OF first held]
    by (simp add: filled_memory_def)
qed

text \<open>
  C10. When the boundary call returns a status other than \<open>Ok\<close>, each of
  \<^verbatim>\<open>get_header_map_value\<close>, \<^verbatim>\<open>get_header_map_flat_pairs\<close> and \<^verbatim>\<open>get_buffer_bytes\<close> returns a
  buffer of length zero and no status; an \<open>Ok\<close> answer that fills the slot with size zero
  gives the same result, so the caller cannot tell the two apart.
\<close>

theorem getters_empty_on_failure:
  "(fst (proxy_get_header_map_value host typ k m) \<noteq> Ok
      \<longrightarrow> fst (get_header_map_value host typ k m) = Inr [])
   \<and> (fst (proxy_get_header_map_pairs host typ m) \<noteq> Ok
      \<longrightarrow> fst (get_header_map_flat_pairs host typ m) = Inr [])
   \<and> (fst (proxy_get_buffer_bytes host btyp start len m) \<noteq> Ok
      \<longrightarrow> fst (get_buffer_bytes host btyp start len m) = Inr [])
   \<and> (fst (proxy_get_header_map_value host0 typ k m) = Ok
        \<and> size_slot (globalArrayBufferReference (snd (proxy_get_header_map_value host0 typ k m))) = 0
      \<longrightarrow> fst (get_header_map_value host0 typ k m) = Inr [])
   \<and> (fst (proxy_get_header_map_pairs host0 typ m) = Ok
        \<and> size_slot (globalArrayBufferReference (snd (proxy_get_header_map_pairs host0 typ m))) = 0
      \<longrightarrow> fst (get_header_map_flat_pairs host0 typ m) = Inr [])
   \<and> (fst (proxy_get_buffer_bytes host0 btyp start len m) = Ok
        \<and> size_slot (globalArrayBufferReference (snd (proxy_get_buffer_bytes host0 btyp start len m))) = 0
      \<longrightarrow> fst (get_buffer_bytes host0 btyp start len m) = Inr [])"
  by (simp add: get_header_map_value_def get_header_map_flat_pairs_def get_buffer_bytes_def
      toArrayBuffer_def split_beta)

text \<open>C10 at a host that refuses the three calls and at one that answers them with an empty
  value.\<close>

theorem getters_empty_on_failure_witness:
  "fst (proxy_get_header_map_value failing_host RequestHeaders [120] filled_memory) \<noteq> Ok
   \<and> fst (get_header_map_value failing_host RequestHeaders [120] filled_memory) = Inr []
   \<and> fst (proxy_get_header_map_pairs failing_host RequestHeaders filled_memory) \<noteq> Ok
   \<and> fst (get_header_map_flat_pairs failing_host RequestHeaders filled_memory) = Inr []
   \<and> fst (proxy_get_buffer_bytes failing_host HttpRequestBody 0 8 filled_memory) \<noteq> Ok
   \<and> fst (get_buffer_bytes failing_host HttpRequestBody 0 8 filled_memory) = Inr []
   \<and> fst (proxy_get_header_map_value (answering_host [] 0) RequestHeaders [120] filled_memory) = Ok
   \<and> fst (get_header_map_value (answering_host [] 0) RequestHeaders [120] filled_memory) = Inr []
   \<and> fst (get_header_map_flat_pairs (answering_host [] 0) RequestHeaders filled_memory) = Inr []
   \<and> fst (get_buffer_bytes (answering_host [] 0) HttpRequestBody 0 8 filled_memory) = Inr []"
  using getters_empty_on_failure [of failing_host RequestHeaders "[120]" filled_memory
      HttpRequestBody 0 8 "answering_host [] 0"]
  by (simp add: failing_host_def answering_host_def fill_def)

declare u32_toString.simps [simp del]

subsection \<open>The call correlation of a root context\<close>

lemma this_root_log [simp]: "this_root (log level msg s) this = this_root s this"
  by (simp add: this_root_def log_def)

lemma this_root_invoked [simp]: "this_root (s\<lparr>invoked := x\<rparr>) this = this_root s this"
  by (simp add: this_root_def)

lemma heap_log [simp]: "heap (log level msg s) = heap s"
  by (simp add: log_def)

lemma context_map_log [simp]: "context_map (log level msg s) = context_map s"
  by (simp add: log_def)

lemma invoked_log [simp]: "invoked (log level msg s) = invoked s"
  by (simp add: log_def)

lemma next_ref_log [simp]: "next_ref (log level msg s) = next_ref s"
  by (simp add: log_def)

lemma marshal_log [simp]: "marshal (log level msg s) = marshal s"
  by (simp add: log_def)

lemma factory_map_log [simp]:
  "root_context_factory_map (log level msg s) = root_context_factory_map s"
  by (simp add: log_def)

lemma logged_log [simp]: "logged (log level msg s) = logged s @ [(level, msg)]"
  by (simp add: log_def)

lemma this_root_set_http_calls:
  "this_root (set_http_calls this m s) this
   = map_option (\<lambda>r. r\<lparr>http_calls := m\<rparr>) (this_root s this)"
  by (auto simp add: this_root_def set_http_calls_def split: option.splits obj.splits)

lemma set_http_calls_frame [simp]:
  "context_map (set_http_calls this m s) = context_map s"
  "invoked (set_http_calls this m s) = invoked s"
  "logged (set_http_calls this m s) = logged s"
  "next_ref (set_http_calls this m s) = next_ref s"
  "marshal (set_http_calls this m s) = marshal s"
  "root_context_factory_map (set_http_calls this m s) = root_context_factory_map s"
  by (simp_all add: set_http_calls_def split: option.splits obj.splits)

lemma heap_set_http_calls_other:
  "a \<noteq> this \<Longrightarrow> heap (set_http_calls this m s) a = heap s a"
  by (simp add: set_http_calls_def split: option.splits obj.splits)

lemma map_of_Map_set: "map_of (Map_set m k v) k' = (if k' = k then Some v else map_of m k')"
  by (induction m) auto

lemma Map_get_Map_set: "Map_get (Map_set m k v) k = Inr v"
  by (simp add: Map_get_def map_of_Map_set)

lemma Map_has_Map_set: "Map_has (Map_set m k v) k"
  by (simp add: Map_has_def map_of_Map_set)

lemma map_of_Map_delete: "map_of (Map_delete m k) k' = (if k' = k then None else map_of m k')"
  by (induction m) (auto simp add: Map_delete_def)

lemma Map_has_Map_delete: "\<not> Map_has (Map_delete m k) k"
  by (simp add: Map_has_def map_of_Map_delete)

text \<open>
  C4. When \<^verbatim>\<open>httpCall\<close> reaches the boundary call, it returns the status of that call. If
  the status is \<open>Ok\<close> the table of pending calls gets the entry from the host's token to
  the originating context and the continuation; for any other status the table, and the
  whole store, is unchanged. The registry and the record of invocations are unchanged in
  both cases.
\<close>

theorem httpCall_stores_iff_Ok:
  assumes recv: "this_root s this = Some r"
    and hs: "serializeHeaders headers = Inr header_pairs"
    and ts: "serializeHeaders trailers = Inr trailer_pairs"
    and call: "proxy_http_call host (String_UTF8_encode cluster) header_pairs body trailer_pairs
                 timeout_milliseconds = (result, token)"
  shows "\<exists>s'. httpCall host this cluster headers body trailers timeout_milliseconds origin f s
               = (Inr result, s')
          \<and> (result = Ok \<longrightarrow>
                pending s' this
                  = Map_set (pending s this) token \<lparr>origin_context = origin, cb = f\<rparr>
                \<and> Map_get (pending s' this) token = Inr \<lparr>origin_context = origin, cb = f\<rparr>)
          \<and> (result \<noteq> Ok \<longrightarrow> pending s' this = pending s this \<and> heap s' = heap s)
          \<and> context_map s' = context_map s \<and> invoked s' = invoked s"
proof (cases "result = Ok")
  case True
  then show ?thesis
    using recv hs ts call
    by (simp add: httpCall_def pending_def this_root_set_http_calls Map_get_Map_set)
next
  case False
  then show ?thesis
    using recv hs ts call
    by (simp add: httpCall_def pending_def)
qed

text \<open>
  C5. A response for a token that has a pending call invokes the continuation registered
  for that token, once, with the originating context and the handles delivered, and
  removes the entry. A response for a token with no pending call invokes nothing, leaves
  the table and the store unchanged, returns normally, and its last log entry is at level
  \<open>error\<close>.
\<close>

theorem onHttpCallResponse_correlates:
  assumes recv: "this_root s this = Some r"
  shows "(map_of (http_calls r) token = Some callback \<and> heap s (origin_context callback) \<noteq> None
           \<longrightarrow> (\<exists>s'. onHttpCallResponse this token headers body_size trailers s = (Inr (), s')
                 \<and> invoked s' = invoked s
                      @ [Callback (cb callback) (origin_context callback) headers body_size trailers]
                 \<and> pending s' this = Map_delete (pending s this) token
                 \<and> \<not> Map_has (pending s' this) token))
       \<and> (map_of (http_calls r) stale = None
           \<longrightarrow> (\<exists>s'. onHttpCallResponse this stale headers body_size trailers s = (Inr (), s')
                 \<and> invoked s' = invoked s
                 \<and> pending s' this = pending s this
                 \<and> heap s' = heap s
                 \<and> last (logged s')
                     = (error, ''onHttpCallResponse: Token '' @ u32_toString stale @ '' not found.'')))"
proof (intro conjI impI)
  assume known: "map_of (http_calls r) token = Some callback \<and> heap s (origin_context callback) \<noteq> None"
  then obtain origin where origin: "heap s (origin_context callback) = Some origin"
    by auto
  from known have has: "Map_has (http_calls r) token" and get: "Map_get (http_calls r) token = Inr callback"
    by (simp_all add: Map_has_def Map_get_def)
  show "\<exists>s'. onHttpCallResponse this token headers body_size trailers s = (Inr (), s')
          \<and> invoked s' = invoked s
               @ [Callback (cb callback) (origin_context callback) headers body_size trailers]
          \<and> pending s' this = Map_delete (pending s this) token
          \<and> \<not> Map_has (pending s' this) token"
    using recv has get origin
    by (simp add: onHttpCallResponse_def pending_def this_root_set_http_calls Map_has_Map_delete)
next
  assume unknown: "map_of (http_calls r) stale = None"
  then have "\<not> Map_has (http_calls r) stale"
    by (simp add: Map_has_def)
  then show "\<exists>s'. onHttpCallResponse this stale headers body_size trailers s = (Inr (), s')
          \<and> invoked s' = invoked s
          \<and> pending s' this = pending s this
          \<and> heap s' = heap s
          \<and> last (logged s')
              = (error, ''onHttpCallResponse: Token '' @ u32_toString stale @ '' not found.'')"
    using recv by (simp add: onHttpCallResponse_def pending_def)
qed

lemma Map_set_fresh: "k \<notin> fst ` set m \<Longrightarrow> Map_set m k v = m @ [(k, v)]"
  by (induction m) auto

lemma call_callbacks_invoked:
  "invoked (call_callbacks cs s)
   = invoked s @ map (\<lambda>c. Callback (cb c) (origin_context c) 0 0 0) cs"
  by (induction cs arbitrary: s) simp_all

lemma call_callbacks_this_root [simp]:
  "this_root (call_callbacks cs s) this = this_root s this"
  by (induction cs arbitrary: s) simp_all

lemma httpCall_Ok:
  assumes recv: "this_root s this = Some r"
    and ok: "httpCall (call_host c) this (call_cluster c) (call_headers c) (call_body c)
               (call_trailers c) (call_timeout c) (call_origin c) (call_cb c) s = (Inr Ok, s')"
  shows "this_root s' this
           = Some (r\<lparr>http_calls := Map_set (http_calls r) (call_token c)
                                      \<lparr>origin_context = call_origin c, cb = call_cb c\<rparr>\<rparr>)
         \<and> invoked s' = invoked s"
  using recv ok
  by (auto simp add: httpCall_def call_token_def this_root_set_http_calls Let_def
      split: sum.splits prod.splits if_splits)

lemma issue_pending:
  "this_root s0 this = Some r0 \<Longrightarrow> issue this calls s0 = (results, s)
   \<Longrightarrow> \<forall>res \<in> set results. res = Inr Ok
   \<Longrightarrow> distinct (map call_token calls)
   \<Longrightarrow> \<forall>c \<in> set calls. call_token c \<notin> fst ` set (http_calls r0)
   \<Longrightarrow> \<exists>r. this_root s this = Some r
          \<and> http_calls r = http_calls r0
               @ map (\<lambda>c. (call_token c, \<lparr>origin_context = call_origin c, cb = call_cb c\<rparr>)) calls
          \<and> invoked s = invoked s0"
proof (induction calls arbitrary: s0 r0 results s)
  case Nil
  then show ?case by simp
next
  case (Cons c calls)
  obtain res s1 where step: "httpCall (call_host c) this (call_cluster c) (call_headers c)
      (call_body c) (call_trailers c) (call_timeout c) (call_origin c) (call_cb c) s0 = (res, s1)"
    by (cases "httpCall (call_host c) this (call_cluster c) (call_headers c)
      (call_body c) (call_trailers c) (call_timeout c) (call_origin c) (call_cb c) s0")
  obtain rs s2 where rest: "issue this calls s1 = (rs, s2)"
    by (cases "issue this calls s1")
  from Cons.prems(2) step rest have results: "results = res # rs" and s: "s = s2"
    by simp_all
  with Cons.prems(3) have res: "res = Inr Ok" and rs: "\<forall>x \<in> set rs. x = Inr Ok"
    by simp_all
  let ?e = "(call_token c, \<lparr>origin_context = call_origin c, cb = call_cb c\<rparr>)"
  let ?r1 = "r0\<lparr>http_calls := Map_set (http_calls r0) (call_token c) (snd ?e)\<rparr>"
  from httpCall_Ok [OF Cons.prems(1) step [unfolded res]]
  have r1: "this_root s1 this = Some ?r1" and inv1: "invoked s1 = invoked s0"
    by simp_all
  from Cons.prems(5) have fresh: "call_token c \<notin> fst ` set (http_calls r0)"
    by simp
  then have tbl: "http_calls ?r1 = http_calls r0 @ [?e]"
    by (simp add: Map_set_fresh)
  have "\<exists>r. this_root s2 this = Some r
          \<and> http_calls r = http_calls ?r1
               @ map (\<lambda>c. (call_token c, \<lparr>origin_context = call_origin c, cb = call_cb c\<rparr>)) calls
          \<and> invoked s2 = invoked s1"
  proof (rule Cons.IH [OF r1 rest rs])
    show "distinct (map call_token calls)" using Cons.prems(4) by simp
    show "\<forall>c \<in> set calls. call_token c \<notin> fst ` set (http_calls ?r1)"
      using Cons.prems(4,5) unfolding tbl by (auto simp add: image_iff)
  qed
  then show ?case
    unfolding tbl s inv1 by simp
qed

lemma onDone_cancels:
  assumes recv: "this_root s this = Some r"
  shows "\<exists>s'. onDone this s = (Inr True, s')
          \<and> invoked s' = invoked s
               @ map (\<lambda>c. Callback (cb c) (origin_context c) 0 0 0) (Map_values (http_calls r))
          \<and> pending s' this = []"
  using recv
  by (simp add: onDone_def cancelPendingRequests_def pending_def this_root_set_http_calls
      call_callbacks_invoked)

text \<open>
  C3, amended. Starting from a root context with no pending call, after N calls that were
  all issued successfully and to which the host gave pairwise distinct tokens,
  \<^verbatim>\<open>onDone\<close> returns normally, invokes exactly the N continuations, in the order of issue,
  each with its originating context and the handles 0, 0, 0, and leaves the table empty.
\<close>

theorem teardown_completes_every_call:
  assumes recv: "this_root s0 this = Some r0"
    and empty: "http_calls r0 = []"
    and issued: "issue this calls s0 = (results, s)"
    and ok: "\<forall>res \<in> set results. res = Inr Ok"
    and tokens: "distinct (map call_token calls)"
  shows "\<exists>s'. onDone this s = (Inr True, s')
          \<and> invoked s' = invoked s0 @ map cancellation calls
          \<and> length (map cancellation calls) = length calls
          \<and> pending s' this = []"
proof -
  from issue_pending [OF recv issued ok tokens] empty
  obtain r where r: "this_root s this = Some r"
    and tbl: "http_calls r
              = map (\<lambda>c. (call_token c, \<lparr>origin_context = call_origin c, cb = call_cb c\<rparr>)) calls"
    and inv: "invoked s = invoked s0"
    by auto
  have "map (\<lambda>c. Callback (cb c) (origin_context c) 0 0 0) (Map_values (http_calls r))
        = map cancellation calls"
    by (simp add: tbl Map_values_def cancellation_def comp_def)
  with onDone_cancels [OF r] inv show ?thesis
    by auto
qed

subsection \<open>The context registry\<close>

lemma CHECK_RESULT_frame:
  "CHECK_RESULT c s = (res, s')
   \<Longrightarrow> heap s' = heap s \<and> next_ref s' = next_ref s \<and> context_map s' = context_map s
       \<and> invoked s' = invoked s \<and> root_context_factory_map s' = root_context_factory_map s
       \<and> marshal s' = marshal s"
  by (auto simp add: CHECK_RESULT_def split: if_splits)

lemma get_property_frame:
  "get_property host path s = (res, s')
   \<Longrightarrow> heap s' = heap s \<and> next_ref s' = next_ref s \<and> context_map s' = context_map s
       \<and> invoked s' = invoked s \<and> root_context_factory_map s' = root_context_factory_map s"
  by (auto simp add: get_property_def CHECK_RESULT_def Let_def split: prod.splits if_splits)

lemma get_plugin_root_id_frame:
  "get_plugin_root_id host s = (res, s')
   \<Longrightarrow> heap s' = heap s \<and> next_ref s' = next_ref s \<and> context_map s' = context_map s
       \<and> invoked s' = invoked s \<and> root_context_factory_map s' = root_context_factory_map s"
  by (auto simp add: get_plugin_root_id_def split: prod.splits sum.splits if_splits
      dest: get_property_frame)

lemma get_property_log:
  "fst (get_property host path (log level msg s)) = fst (get_property host path s)"
  by (simp add: get_property_def CHECK_RESULT_def Let_def split: prod.splits)

lemma get_plugin_root_id_log:
  "fst (get_plugin_root_id host (log level msg s)) = fst (get_plugin_root_id host s)"
  using get_property_log [of host "''plugin_root_id''" level msg s]
  by (auto simp add: get_plugin_root_id_def split: prod.splits sum.splits)

text \<open>
  C8. When the id has no entry, the plugin root name is read from the property store, and
  no factory is registered under that name, \<^verbatim>\<open>ensureRootContext\<close> throws the error
  \<^verbatim>\<open>Missing root context factory for root id: \<close> followed by the name. It creates nothing and
  registers nothing.
\<close>

theorem ensureRootContext_missing_factory:
  assumes absent: "\<not> Map_has (context_map s) root_context_id"
    and name: "fst (get_plugin_root_id host s) = Inr root_id"
    and missing: "\<not> Map_has (root_context_factory_map s) root_id"
  shows "fst (ensureRootContext host root_context_id s)
           = Inl (Error (''Missing root context factory for root id: '' @ root_id))
         \<and> context_map (snd (ensureRootContext host root_context_id s)) = context_map s
         \<and> heap (snd (ensureRootContext host root_context_id s)) = heap s
         \<and> invoked (snd (ensureRootContext host root_context_id s)) = invoked s"
proof -
  let ?s1 = "log debug (''Current context_map: ''
                @ join '', '' (map u32_toString (Map_keys (context_map s))))
              (log debug (''ensureRootContext(root_context_id: ''
                @ u32_toString root_context_id @ '')'') s)"
  obtain res s2 where g: "get_plugin_root_id host ?s1 = (res, s2)"
    by (cases "get_plugin_root_id host ?s1")
  have "fst (get_plugin_root_id host ?s1) = Inr root_id"
    using name by (simp add: get_plugin_root_id_log)
  with g have res: "res = Inr root_id" by simp
  from get_plugin_root_id_frame [OF g]
  have fr: "heap s2 = heap s" "context_map s2 = context_map s" "invoked s2 = invoked s"
    "root_context_factory_map s2 = root_context_factory_map s"
    by simp_all
  show ?thesis
    using absent missing g res fr
    by (simp add: ensureRootContext_def Let_def)
qed

lemma set_Map_set: "set (Map_set m k v) \<subseteq> insert (k, v) (set m)"
  by (induction m) (auto split: if_splits)

lemma getRootContext_cong:
  "heap s1 = heap s \<Longrightarrow> context_map s1 = context_map s
   \<Longrightarrow> getRootContext cid s1 = getRootContext cid s"
  by (simp add: getRootContext_def split: sum.splits)

lemma getRootContext_log [simp]:
  "getRootContext cid (log level msg s) = getRootContext cid s"
  by (rule getRootContext_cong) simp_all

lemma getRootContext_Inr:
  "getRootContext cid s = Inr root
   \<longleftrightarrow> map_of (context_map s) cid = Some root \<and> (\<exists>x. heap s root = Some (RootContextObj x))"
  by (auto simp add: getRootContext_def Map_get_def split: option.splits obj.splits sum.splits)

lemma ensureRootContext_cases:
  assumes run: "ensureRootContext host rid s = (res, s1)"
  shows "(Map_has (context_map s) rid
            \<and> res = getRootContext rid s
            \<and> heap s1 = heap s \<and> next_ref s1 = next_ref s \<and> context_map s1 = context_map s
            \<and> invoked s1 = invoked s \<and> marshal s1 = marshal s
            \<and> root_context_factory_map s1 = root_context_factory_map s)
       \<or> (\<not> Map_has (context_map s) rid \<and> (\<exists>e. res = Inl e)
            \<and> heap s1 = heap s \<and> next_ref s1 = next_ref s \<and> context_map s1 = context_map s
            \<and> invoked s1 = invoked s
            \<and> root_context_factory_map s1 = root_context_factory_map s)
       \<or> (\<not> Map_has (context_map s) rid \<and> res = Inr (next_ref s)
            \<and> (\<exists>x root_id. heap s1 = (heap s)(next_ref s \<mapsto> RootContextObj x)
                  \<and> invoked s1 = invoked s @ [Factory root_id rid])
            \<and> next_ref s1 = Suc (next_ref s)
            \<and> context_map s1 = Map_set (context_map s) rid (next_ref s)
            \<and> root_context_factory_map s1 = root_context_factory_map s)"
proof (cases "Map_has (context_map s) rid")
  case True
  then show ?thesis
    using run by (auto simp add: ensureRootContext_def Let_def)
next
  case False
  let ?s1 = "log debug (''Current context_map: ''
                @ join '', '' (map u32_toString (Map_keys (context_map s))))
              (log debug (''ensureRootContext(root_context_id: ''
                @ u32_toString rid @ '')'') s)"
  obtain g s2 where g: "get_plugin_root_id host ?s1 = (g, s2)"
    by (cases "get_plugin_root_id host ?s1")
  from get_plugin_root_id_frame [OF g]
  have fr: "heap s2 = heap s" "context_map s2 = context_map s" "invoked s2 = invoked s"
    "root_context_factory_map s2 = root_context_factory_map s" "next_ref s2 = next_ref s"
    by simp_all
  show ?thesis
    using False run g fr
    by (auto simp add: ensureRootContext_def Let_def new_object_def set_context_id_def
        split: sum.splits if_splits)
qed

lemma ensureRootContext_frame:
  assumes run: "ensureRootContext host rid s = (res, s1)"
  shows "next_ref s \<le> next_ref s1"
    and "r < next_ref s \<Longrightarrow> heap s1 r = heap s r"
    and "Map_has (context_map s) k \<Longrightarrow> map_of (context_map s1) k = map_of (context_map s) k"
    and "created_contexts s1 = created_contexts s"
    and "registry_wf s \<Longrightarrow> registry_wf s1"
    and "res = Inr root \<Longrightarrow> getRootContext rid s1 = Inr root"
proof -
  note c = ensureRootContext_cases [OF run]
  show "next_ref s \<le> next_ref s1"
    using c by auto
  show "r < next_ref s \<Longrightarrow> heap s1 r = heap s r"
    using c by auto
  show "Map_has (context_map s) k \<Longrightarrow> map_of (context_map s1) k = map_of (context_map s) k"
    using c by (auto simp add: map_of_Map_set)
  show "created_contexts s1 = created_contexts s"
    using c by (auto simp add: created_contexts_def)
  show "registry_wf s \<Longrightarrow> registry_wf s1"
    using c set_Map_set [of "context_map s" rid "next_ref s"]
    by (fastforce simp add: registry_wf_def)
  show "res = Inr root \<Longrightarrow> getRootContext rid s1 = Inr root"
  proof -
    assume r: "res = Inr root"
    from c r consider
      (old) "getRootContext rid s = Inr root" "heap s1 = heap s" "context_map s1 = context_map s"
      | (new) x where "root = next_ref s" "heap s1 = (heap s)(next_ref s \<mapsto> RootContextObj x)"
          "context_map s1 = Map_set (context_map s) rid (next_ref s)"
      by auto
    then show ?thesis
    proof cases
      case old
      then show ?thesis
        by (simp add: getRootContext_cong [OF old(2,3)])
    next
      case new
      then show ?thesis
        by (simp add: getRootContext_Inr map_of_Map_set)
    qed
  qed
qed

text \<open>
  C6. If \<^verbatim>\<open>ensureRootContext\<close> returned a root context for an id, a second call with the same
  id returns the same object, whatever the host would answer: it allocates nothing, calls
  no factory, asks the host nothing and leaves the registry as it is.
\<close>

theorem ensureRootContext_idempotent:
  assumes first: "ensureRootContext host root_context_id s = (Inr root, s1)"
  shows "\<exists>s2. ensureRootContext host' root_context_id s1 = (Inr root, s2)
          \<and> heap s2 = heap s1 \<and> next_ref s2 = next_ref s1
          \<and> context_map s2 = context_map s1
          \<and> invoked s2 = invoked s1
          \<and> marshal s2 = marshal s1
          \<and> root_context_factory_map s2 = root_context_factory_map s1"
proof -
  from ensureRootContext_frame(6) [OF first] have g: "getRootContext root_context_id s1 = Inr root"
    by simp
  then have "Map_has (context_map s1) root_context_id"
    by (simp add: getRootContext_Inr Map_has_def)
  with g show ?thesis
    by (simp add: ensureRootContext_def Let_def)
qed

lemma registry_wf_log [simp]: "registry_wf (log level msg s) = registry_wf s"
  by (simp add: registry_wf_def)

lemma created_contexts_log [simp]: "created_contexts (log level msg s) = created_contexts s"
  by (simp add: created_contexts_def)

lemma ensureContext_cases:
  assumes run: "ensureContext host cid rid s = (res, s2)"
  shows "\<exists>s' rr sa. registry_wf s' = registry_wf s \<and> context_map s' = context_map s
           \<and> heap s' = heap s \<and> next_ref s' = next_ref s
           \<and> created_contexts s' = created_contexts s
           \<and> ensureRootContext host rid s' = (rr, sa)
           \<and> ((\<exists>e. rr = Inl e \<and> res = Inl e \<and> s2 = sa)
              \<or> (\<exists>root. rr = Inr root \<and> Map_has (context_map sa) cid \<and> res = Inr ()
                    \<and> heap s2 = heap sa \<and> next_ref s2 = next_ref sa
                    \<and> context_map s2 = context_map sa \<and> invoked s2 = invoked sa)
              \<or> (\<exists>root. rr = Inr root \<and> \<not> Map_has (context_map sa) cid \<and> res = Inl unreachable
                    \<and> heap s2 = heap sa \<and> next_ref s2 = next_ref sa
                    \<and> context_map s2 = context_map sa \<and> invoked s2 = invoked sa)
              \<or> (\<exists>root x. rr = Inr root \<and> \<not> Map_has (context_map sa) cid \<and> res = Inr ()
                    \<and> heap s2 = (heap sa)(next_ref sa \<mapsto> ContextObj x)
                    \<and> next_ref s2 = Suc (next_ref sa)
                    \<and> context_map s2 = Map_set (context_map sa) cid (next_ref sa)
                    \<and> invoked s2 = invoked sa @ [CreateContext root cid]))"
proof -
  let ?s' = "log debug (''Current context_map: ''
                @ join '', '' (map u32_toString (Map_keys (context_map s))))
              (log debug (''ensureContext(context_id: '' @ u32_toString cid
                @ '', root_context_id: '' @ u32_toString rid @ '')'') s)"
  obtain rr sa where rr: "ensureRootContext host rid ?s' = (rr, sa)"
    by (cases "ensureRootContext host rid ?s'")
  have body: "(\<exists>e. rr = Inl e \<and> res = Inl e \<and> s2 = sa)
              \<or> (\<exists>root. rr = Inr root \<and> Map_has (context_map sa) cid \<and> res = Inr ()
                    \<and> heap s2 = heap sa \<and> next_ref s2 = next_ref sa
                    \<and> context_map s2 = context_map sa \<and> invoked s2 = invoked sa)
              \<or> (\<exists>root. rr = Inr root \<and> \<not> Map_has (context_map sa) cid \<and> res = Inl unreachable
                    \<and> heap s2 = heap sa \<and> next_ref s2 = next_ref sa
                    \<and> context_map s2 = context_map sa \<and> invoked s2 = invoked sa)
              \<or> (\<exists>root x. rr = Inr root \<and> \<not> Map_has (context_map sa) cid \<and> res = Inr ()
                    \<and> heap s2 = (heap sa)(next_ref sa \<mapsto> ContextObj x)
                    \<and> next_ref s2 = Suc (next_ref sa)
                    \<and> context_map s2 = Map_set (context_map sa) cid (next_ref sa)
                    \<and> invoked s2 = invoked sa @ [CreateContext root cid])"
    using run rr
    by (auto simp add: ensureContext_def Let_def new_object_def
        split: sum.splits if_splits option.splits)
  have pre: "registry_wf ?s' = registry_wf s \<and> context_map ?s' = context_map s
           \<and> heap ?s' = heap s \<and> next_ref ?s' = next_ref s
           \<and> created_contexts ?s' = created_contexts s"
    by simp
  from pre rr body show ?thesis
    by blast
qed

lemma ensureContext_success:
  assumes wf: "registry_wf s" and run: "ensureContext host cid rid s = (Inr (), s1)"
  shows "Map_has (context_map s1) cid" and "registry_wf s1"
proof -
  from ensureContext_cases [OF run] obtain s' rr sa where
    pre: "registry_wf s' = registry_wf s"
    and root: "ensureRootContext host rid s' = (rr, sa)"
    and alt: "(\<exists>root. rr = Inr root \<and> Map_has (context_map sa) cid
                  \<and> next_ref s1 = next_ref sa \<and> context_map s1 = context_map sa)
            \<or> (\<exists>root. rr = Inr root \<and> next_ref s1 = Suc (next_ref sa)
                  \<and> context_map s1 = Map_set (context_map sa) cid (next_ref sa))"
    by auto
  from ensureRootContext_frame(5) [OF root] wf pre have wfa: "registry_wf sa"
    by simp
  from alt show "Map_has (context_map s1) cid"
    by (auto simp add: Map_has_Map_set)
  from alt wfa set_Map_set [of "context_map sa" cid "next_ref sa"] show "registry_wf s1"
    by (fastforce simp add: registry_wf_def)
qed

text \<open>
  C7, amended. After \<^verbatim>\<open>ensureContext(5, 1)\<close> succeeded, \<^verbatim>\<open>ensureContext(5, 2)\<close> creates no
  second context for id 5: the entry of id 5 names the same object, that object is
  unchanged, and \<^verbatim>\<open>createContext_\<close> is not called again, whatever the root id and whether or
  not the call returns normally. The call is a no-op for id 5 only: it first ensures the
  root context of its root id. Stated for any context id and any two root ids.
\<close>

theorem ensureContext_keeps_existing_context:
  assumes wf: "registry_wf s0"
    and first: "ensureContext host1 cid rid1 s0 = (Inr (), s1)"
    and second: "ensureContext host2 cid rid2 s1 = (res, s2)"
  shows "\<exists>c. map_of (context_map s1) cid = Some c
            \<and> map_of (context_map s2) cid = Some c
            \<and> heap s2 c = heap s1 c
            \<and> created_contexts s2 = created_contexts s1"
proof -
  from ensureContext_success [OF wf first]
  have has1: "Map_has (context_map s1) cid" and wf1: "registry_wf s1"
    by simp_all
  from has1 obtain c where c: "map_of (context_map s1) cid = Some c"
    by (auto simp add: Map_has_def)
  then have "(cid, c) \<in> set (context_map s1)"
    by (rule map_of_SomeD)
  with wf1 have lt: "c < next_ref s1"
    by (auto simp add: registry_wf_def)
  from ensureContext_cases [OF second] obtain s' rr sa where
    pre: "context_map s' = context_map s1" "heap s' = heap s1" "next_ref s' = next_ref s1"
      "created_contexts s' = created_contexts s1"
    and root: "ensureRootContext host2 rid2 s' = (rr, sa)"
    and alt: "(\<exists>e. rr = Inl e \<and> res = Inl e \<and> s2 = sa)
              \<or> (\<exists>root. rr = Inr root \<and> Map_has (context_map sa) cid \<and> res = Inr ()
                    \<and> heap s2 = heap sa \<and> next_ref s2 = next_ref sa
                    \<and> context_map s2 = context_map sa \<and> invoked s2 = invoked sa)
              \<or> (\<exists>root. rr = Inr root \<and> \<not> Map_has (context_map sa) cid \<and> res = Inl unreachable
                    \<and> heap s2 = heap sa \<and> next_ref s2 = next_ref sa
                    \<and> context_map s2 = context_map sa \<and> invoked s2 = invoked sa)
              \<or> (\<exists>root x. rr = Inr root \<and> \<not> Map_has (context_map sa) cid \<and> res = Inr ()
                    \<and> heap s2 = (heap sa)(next_ref sa \<mapsto> ContextObj x)
                    \<and> next_ref s2 = Suc (next_ref sa)
                    \<and> context_map s2 = Map_set (context_map sa) cid (next_ref sa)
                    \<and> invoked s2 = invoked sa @ [CreateContext root cid])"
    by blast
  from has1 pre have has': "Map_has (context_map s') cid" by simp
  from ensureRootContext_frame(3) [OF root has'] c pre
  have ma: "map_of (context_map sa) cid = Some c" by simp
  then have hasa: "Map_has (context_map sa) cid" by (simp add: Map_has_def)
  from ensureRootContext_frame(2) [OF root, of c] lt pre
  have ha: "heap sa c = heap s1 c" by simp
  from ensureRootContext_frame(4) [OF root] pre
  have ca: "created_contexts sa = created_contexts s1" by simp
  from alt hasa have "context_map s2 = context_map sa \<and> heap s2 = heap sa \<and> invoked s2 = invoked sa"
    by auto
  with ma ha ca c show ?thesis
    by (simp add: created_contexts_def)
qed

lemma unat_of_char: "unat (of_char c :: 8 word) = (of_char c :: nat)"
proof -
  have "(of_char c :: 8 word) = of_nat (of_char c)"
    by (simp add: of_nat_of_char)
  moreover have "(of_char c :: nat) mod 256 = of_char c"
    by (rule of_char_mod_256)
  ultimately show ?thesis
    by (simp add: unat_of_nat take_bit_eq_mod)
qed

lemma decode_encode: "String_UTF8_decode (String_UTF8_encode s) = s"
  by (simp add: String_UTF8_decode_def String_UTF8_encode_def unat_of_char comp_def)

lemma length_String_UTF8_encode [simp]: "length (String_UTF8_encode s) = length s"
  by (simp add: String_UTF8_encode_def)

lemma plugin_root_id: "fst (get_plugin_root_id plugin_host s) = Inr ''p''"
  by (simp add: get_plugin_root_id_def get_property_def CHECK_RESULT_def plugin_host_def
      answering_host_def fill_def toArrayBuffer_def decode_encode
      retain_def free_def Let_def split: prod.splits)

lemma ensureRootContext_creates:
  assumes absent: "\<not> Map_has (context_map s) rid"
    and factory: "map_of (root_context_factory_map s) ''p'' = Some f"
  shows "fst (ensureRootContext plugin_host rid s) = Inr (next_ref s)"
    and "context_map (snd (ensureRootContext plugin_host rid s))
         = Map_set (context_map s) rid (next_ref s)"
    and "invoked (snd (ensureRootContext plugin_host rid s)) = invoked s @ [Factory ''p'' rid]"
    and "next_ref (snd (ensureRootContext plugin_host rid s)) = Suc (next_ref s)"
    and "heap (snd (ensureRootContext plugin_host rid s))
         = (heap s)(next_ref s \<mapsto> RootContextObj ((f rid)\<lparr>context_id := rid\<rparr>))"
    and "root_context_factory_map (snd (ensureRootContext plugin_host rid s))
         = root_context_factory_map s"
proof -
  let ?s1 = "log debug (''Current context_map: ''
                @ join '', '' (map u32_toString (Map_keys (context_map s))))
              (log debug (''ensureRootContext(root_context_id: ''
                @ u32_toString rid @ '')'') s)"
  obtain g s2 where g: "get_plugin_root_id plugin_host ?s1 = (g, s2)"
    by (cases "get_plugin_root_id plugin_host ?s1")
  from plugin_root_id [of ?s1] g have gv: "g = Inr ''p''" by simp
  from get_plugin_root_id_frame [OF g]
  have fr: "heap s2 = heap s" "context_map s2 = context_map s" "invoked s2 = invoked s"
    "root_context_factory_map s2 = root_context_factory_map s" "next_ref s2 = next_ref s"
    by simp_all
  from factory have has: "Map_has (root_context_factory_map s) ''p''"
    and get: "Map_get (root_context_factory_map s) ''p'' = Inr f"
    by (simp_all add: Map_has_def Map_get_def)
  note facts = absent g gv fr has get
  show "fst (ensureRootContext plugin_host rid s) = Inr (next_ref s)"
    using facts by (simp add: ensureRootContext_def Let_def new_object_def set_context_id_def)
  show "context_map (snd (ensureRootContext plugin_host rid s))
         = Map_set (context_map s) rid (next_ref s)"
    using facts by (simp add: ensureRootContext_def Let_def new_object_def set_context_id_def)
  show "invoked (snd (ensureRootContext plugin_host rid s)) = invoked s @ [Factory ''p'' rid]"
    using facts by (simp add: ensureRootContext_def Let_def new_object_def set_context_id_def)
  show "next_ref (snd (ensureRootContext plugin_host rid s)) = Suc (next_ref s)"
    using facts by (simp add: ensureRootContext_def Let_def new_object_def set_context_id_def)
  show "heap (snd (ensureRootContext plugin_host rid s))
         = (heap s)(next_ref s \<mapsto> RootContextObj ((f rid)\<lparr>context_id := rid\<rparr>))"
    using facts by (simp add: ensureRootContext_def Let_def new_object_def set_context_id_def)
  show "root_context_factory_map (snd (ensureRootContext plugin_host rid s))
         = root_context_factory_map s"
    using facts by (simp add: ensureRootContext_def Let_def new_object_def set_context_id_def)
qed

lemma ensureContext_with_new_root:
  assumes absent: "\<not> Map_has (context_map s) rid"
    and factory: "map_of (root_context_factory_map s) ''p'' = Some f"
    and other: "cid \<noteq> rid"
  shows "fst (ensureContext plugin_host cid rid s) = Inr ()"
    and "Map_has (context_map s) cid
         \<Longrightarrow> context_map (snd (ensureContext plugin_host cid rid s))
             = Map_set (context_map s) rid (next_ref s)"
    and "Map_has (context_map s) cid
         \<Longrightarrow> invoked (snd (ensureContext plugin_host cid rid s)) = invoked s @ [Factory ''p'' rid]"
    and "\<not> Map_has (context_map s) cid
         \<Longrightarrow> context_map (snd (ensureContext plugin_host cid rid s))
             = Map_set (Map_set (context_map s) rid (next_ref s)) cid (Suc (next_ref s))"
    and "\<not> Map_has (context_map s) cid
         \<Longrightarrow> invoked (snd (ensureContext plugin_host cid rid s))
             = invoked s @ [Factory ''p'' rid, CreateContext (next_ref s) cid]"
    and "root_context_factory_map (snd (ensureContext plugin_host cid rid s))
         = root_context_factory_map s"
    and "\<not> Map_has (context_map s) cid
         \<Longrightarrow> next_ref (snd (ensureContext plugin_host cid rid s)) = Suc (Suc (next_ref s))"
proof -
  let ?s' = "log debug (''Current context_map: ''
                @ join '', '' (map u32_toString (Map_keys (context_map s))))
              (log debug (''ensureContext(context_id: '' @ u32_toString cid
                @ '', root_context_id: '' @ u32_toString rid @ '')'') s)"
  obtain rr sa where rr: "ensureRootContext plugin_host rid ?s' = (rr, sa)"
    by (cases "ensureRootContext plugin_host rid ?s'")
  have a': "\<not> Map_has (context_map ?s') rid" using absent by simp
  have f': "map_of (root_context_factory_map ?s') ''p'' = Some f" using factory by simp
  note c = ensureRootContext_creates [OF a' f', unfolded rr fst_conv snd_conv]
  have rv: "rr = Inr (next_ref s)" using c(1) by simp
  have cm: "context_map sa = Map_set (context_map s) rid (next_ref s)" using c(2) by simp
  have iv: "invoked sa = invoked s @ [Factory ''p'' rid]" using c(3) by simp
  have nr: "next_ref sa = Suc (next_ref s)" using c(4) by simp
  have hp: "heap sa = (heap s)(next_ref s \<mapsto> RootContextObj ((f rid)\<lparr>context_id := rid\<rparr>))"
    using c(5) by simp
  have fm: "root_context_factory_map sa = root_context_factory_map s" using c(6) by simp
  have tr: "this_root sa (next_ref s) = Some ((f rid)\<lparr>context_id := rid\<rparr>)"
    by (simp add: this_root_def hp)
  have hs: "Map_has (context_map sa) cid = Map_has (context_map s) cid"
    using other by (simp add: cm Map_has_def map_of_Map_set)
  note facts = rr rv cm iv nr fm tr hs
  show "fst (ensureContext plugin_host cid rid s) = Inr ()"
    using facts by (simp add: ensureContext_def Let_def new_object_def)
  show "root_context_factory_map (snd (ensureContext plugin_host cid rid s))
         = root_context_factory_map s"
    using facts by (simp add: ensureContext_def Let_def new_object_def)
  {
    assume "\<not> Map_has (context_map s) cid"
    then show "next_ref (snd (ensureContext plugin_host cid rid s)) = Suc (Suc (next_ref s))"
      using facts by (simp add: ensureContext_def Let_def new_object_def)
  next
    assume "Map_has (context_map s) cid"
    then show "context_map (snd (ensureContext plugin_host cid rid s))
             = Map_set (context_map s) rid (next_ref s)"
      using facts by (simp add: ensureContext_def Let_def)
  next
    assume "Map_has (context_map s) cid"
    then show "invoked (snd (ensureContext plugin_host cid rid s)) = invoked s @ [Factory ''p'' rid]"
      using facts by (simp add: ensureContext_def Let_def)
  next
    assume "\<not> Map_has (context_map s) cid"
    then show "context_map (snd (ensureContext plugin_host cid rid s))
             = Map_set (Map_set (context_map s) rid (next_ref s)) cid (Suc (next_ref s))"
      using facts by (simp add: ensureContext_def Let_def new_object_def)
  next
    assume "\<not> Map_has (context_map s) cid"
    then show "invoked (snd (ensureContext plugin_host cid rid s))
             = invoked s @ [Factory ''p'' rid, CreateContext (next_ref s) cid]"
      using facts by (simp add: ensureContext_def Let_def new_object_def)
  }
qed

lemma registry_start_fields:
  "context_map registry_start = []" "invoked registry_start = []" "next_ref registry_start = 0"
  "root_context_factory_map registry_start = [(''p'', new_RootContext)]"
  "registry_wf registry_start"
  by (simp_all add: registry_start_def registerRootContext_def empty_Runtime_def registry_wf_def)

text \<open>
  C7, as the spec states it, fails: the second call is not a no-op. With a factory
  registered and an empty registry, \<^verbatim>\<open>ensureContext(5, 1)\<close> registers the ids 1 and 5, and
  \<^verbatim>\<open>ensureContext(5, 2)\<close> then calls the factory again and registers a root context for
  id 2.
\<close>

theorem ensureContext_second_call_counterexample:
  "context_map (snd (ensureContext plugin_host 5 1 registry_start)) = [(1, 0), (5, 1)]
   \<and> context_map (snd (ensureContext plugin_host 5 2
                         (snd (ensureContext plugin_host 5 1 registry_start))))
       = [(1, 0), (5, 1), (2, 2)]
   \<and> invoked (snd (ensureContext plugin_host 5 1 registry_start))
       = [Factory ''p'' 1, CreateContext 0 5]
   \<and> invoked (snd (ensureContext plugin_host 5 2
                     (snd (ensureContext plugin_host 5 1 registry_start))))
       = [Factory ''p'' 1, CreateContext 0 5, Factory ''p'' 2]"
proof -
  let ?s1 = "snd (ensureContext plugin_host 5 1 registry_start)"
  have a0: "\<not> Map_has (context_map registry_start) 1" "\<not> Map_has (context_map registry_start) 5"
    by (simp_all add: registry_start_fields Map_has_def)
  have f0: "map_of (root_context_factory_map registry_start) ''p'' = Some new_RootContext"
    by (simp add: registry_start_fields)
  have cm1: "context_map ?s1 = [(1, 0), (5, 1)]"
    using ensureContext_with_new_root(4) [OF a0(1) f0, of 5] a0(2)
    by (simp add: registry_start_fields)
  have iv1: "invoked ?s1 = [Factory ''p'' 1, CreateContext 0 5]"
    using ensureContext_with_new_root(5) [OF a0(1) f0, of 5] a0(2)
    by (simp add: registry_start_fields)
  have a1: "\<not> Map_has (context_map ?s1) 2" and h1: "Map_has (context_map ?s1) 5"
    using cm1 by (simp_all add: Map_has_def)
  have f1: "map_of (root_context_factory_map ?s1) ''p'' = Some new_RootContext"
    using ensureContext_with_new_root(6) [OF a0(1) f0, of 5]
    by (simp add: registry_start_fields)
  have n1: "next_ref ?s1 = 2"
    using ensureContext_with_new_root(7) [OF a0(1) f0, of 5] a0(2)
    by (simp add: registry_start_fields)
  have cm2: "context_map (snd (ensureContext plugin_host 5 2 ?s1)) = [(1, 0), (5, 1), (2, 2)]"
    using ensureContext_with_new_root(2) [OF a1 f1, of 5] h1 cm1 n1
    by simp
  have iv2: "invoked (snd (ensureContext plugin_host 5 2 ?s1))
             = [Factory ''p'' 1, CreateContext 0 5, Factory ''p'' 2]"
    using ensureContext_with_new_root(3) [OF a1 f1, of 5] h1 iv1
    by simp
  from cm1 cm2 iv1 iv2 show ?thesis
    by simp
qed

lemma serializeHeaders_Nil: "serializeHeaders [] = Inr [0, 0, 0, 0]"
  using serializeHeaders_layout [of "[]"]
  by (simp add: encoded_size_def BLOCK_MAXSIZE_def wire_layout_def u32_bytes_def)

lemma this_root_root_state: "this_root root_state 0 = Some (new_RootContext 1)"
  by (simp add: this_root_def root_state_def)

lemma pending_root_state: "pending root_state 0 = []"
  by (simp add: pending_def this_root_root_state new_RootContext_def)

lemma httpCall_result:
  assumes recv: "this_root s this = Some r"
    and hs: "serializeHeaders headers = Inr header_pairs"
    and ts: "serializeHeaders trailers = Inr trailer_pairs"
    and call: "proxy_http_call host (String_UTF8_encode cluster) header_pairs body trailer_pairs
                 timeout_milliseconds = (result, token)"
  shows "fst (httpCall host this cluster headers body trailers timeout_milliseconds origin f s)
         = Inr result"
    and "result = Ok
         \<Longrightarrow> this_root (snd (httpCall host this cluster headers body trailers timeout_milliseconds
                               origin f s)) this
             = Some (r\<lparr>http_calls := Map_set (http_calls r) token
                                         \<lparr>origin_context = origin, cb = f\<rparr>\<rparr>)"
  using recv hs ts call
  by (simp_all add: httpCall_def this_root_set_http_calls Let_def)

subsection \<open>Instances\<close>

text \<open>C4 at a call that the host accepts with token 7 and at a call that it refuses.\<close>

theorem httpCall_stores_iff_Ok_witness:
  "this_root root_state 0 = Some (new_RootContext 1)
   \<and> serializeHeaders [] = Inr [0, 0, 0, 0]
   \<and> proxy_http_call (answering_host [] 7) (String_UTF8_encode ''cluster'') [0, 0, 0, 0] []
         [0, 0, 0, 0] 10 = (Ok, 7)
   \<and> (\<exists>s'. httpCall (answering_host [] 7) 0 ''cluster'' [] [] [] 10 0 3 root_state = (Inr Ok, s')
          \<and> pending s' 0 = [(7, \<lparr>origin_context = 0, cb = 3\<rparr>)])
   \<and> proxy_http_call failing_host (String_UTF8_encode ''cluster'') [0, 0, 0, 0] []
         [0, 0, 0, 0] 10 = (InternalFailure, 0)
   \<and> (\<exists>s'. httpCall failing_host 0 ''cluster'' [] [] [] 10 0 3 root_state
               = (Inr InternalFailure, s')
          \<and> pending s' 0 = [] \<and> heap s' = heap root_state)"
proof -
  have ok: "proxy_http_call (answering_host [] 7) (String_UTF8_encode ''cluster'') [0, 0, 0, 0] []
         [0, 0, 0, 0] 10 = (Ok, 7)"
    by (simp add: answering_host_def)
  have bad: "proxy_http_call failing_host (String_UTF8_encode ''cluster'') [0, 0, 0, 0] []
         [0, 0, 0, 0] 10 = (InternalFailure, 0)"
    by (simp add: failing_host_def)
  note a = httpCall_stores_iff_Ok [OF this_root_root_state serializeHeaders_Nil
      serializeHeaders_Nil ok, of 0 3]
  note b = httpCall_stores_iff_Ok [OF this_root_root_state serializeHeaders_Nil
      serializeHeaders_Nil bad, of 0 3]
  show ?thesis
    using this_root_root_state serializeHeaders_Nil ok bad a b
    by (auto simp add: pending_root_state)
qed

lemma this_root_waiting_state:
  "this_root waiting_state 0
   = Some ((new_RootContext 1)\<lparr>http_calls := [(7, \<lparr>origin_context = 0, cb = 3\<rparr>)]\<rparr>)"
  by (simp add: waiting_state_def this_root_set_http_calls this_root_root_state)

lemma httpCall_invoked:
  "invoked (snd (httpCall host this cluster headers body trailers timeout_milliseconds origin f s))
   = invoked s"
  by (simp add: httpCall_def Let_def split: option.splits sum.splits prod.splits)

text \<open>
  C3, as the spec states it, fails when the host gives one token to two calls: the table
  is keyed by the token, the second entry replaces the first, and the teardown after two
  successfully issued calls invokes one continuation, the second.
\<close>

theorem teardown_completes_every_call_counterexample:
  "fst (issue 0 same_token_calls root_state) = [Inr Ok, Inr Ok]
   \<and> fst (onDone 0 (snd (issue 0 same_token_calls root_state))) = Inr True
   \<and> invoked (snd (onDone 0 (snd (issue 0 same_token_calls root_state))))
       = [Callback 4 0 0 0 0]"
proof -
  let ?h = "answering_host [] 7"
  have c7: "proxy_http_call ?h (String_UTF8_encode ''cluster'') [0, 0, 0, 0] [] [0, 0, 0, 0] 10
            = (Ok, 7)"
    by (simp add: answering_host_def)
  let ?s1 = "snd (httpCall ?h 0 ''cluster'' [] [] [] 10 0 3 root_state)"
  let ?s2 = "snd (httpCall ?h 0 ''cluster'' [] [] [] 10 0 4 ?s1)"
  note a = httpCall_result [OF this_root_root_state serializeHeaders_Nil serializeHeaders_Nil c7,
      of 0 3]
  have r1: "this_root ?s1 0
            = Some ((new_RootContext 1)\<lparr>http_calls := [(7, \<lparr>origin_context = 0, cb = 3\<rparr>)]\<rparr>)"
    using a(2) by (simp add: new_RootContext_def)
  note b = httpCall_result [OF r1 serializeHeaders_Nil serializeHeaders_Nil c7, of 0 4]
  have r2: "this_root ?s2 0
            = Some ((new_RootContext 1)\<lparr>http_calls := [(7, \<lparr>origin_context = 0, cb = 4\<rparr>)]\<rparr>)"
    using b(2) by simp
  have results: "fst (issue 0 same_token_calls root_state) = [Inr Ok, Inr Ok]"
    using a(1) b(1) by (simp add: same_token_calls_def split_beta)
  have final: "snd (issue 0 same_token_calls root_state) = ?s2"
    by (simp add: same_token_calls_def split_beta)
  have inv: "invoked ?s2 = []"
    by (simp add: httpCall_invoked root_state_def empty_Runtime_def)
  from onDone_cancels [OF r2] inv
  have "fst (onDone 0 ?s2) = Inr True \<and> invoked (snd (onDone 0 ?s2)) = [Callback 4 0 0 0 0]"
    by (auto simp add: Map_values_def)
  with results final show ?thesis
    by simp
qed

text \<open>C5 with one pending call under token 7: a response for 7 and a response for 9.\<close>

theorem onHttpCallResponse_correlates_witness:
  "this_root waiting_state 0
     = Some ((new_RootContext 1)\<lparr>http_calls := [(7, \<lparr>origin_context = 0, cb = 3\<rparr>)]\<rparr>)
   \<and> heap waiting_state 0 \<noteq> None
   \<and> (\<exists>s'. onHttpCallResponse 0 7 11 12 13 waiting_state = (Inr (), s')
          \<and> invoked s' = [Callback 3 0 11 12 13]
          \<and> pending s' 0 = [])
   \<and> (\<exists>s'. onHttpCallResponse 0 9 11 12 13 waiting_state = (Inr (), s')
          \<and> invoked s' = []
          \<and> pending s' 0 = [(7, \<lparr>origin_context = 0, cb = 3\<rparr>)]
          \<and> fst (last (logged s')) = error)"
proof -
  have h: "heap waiting_state 0 \<noteq> None"
    by (simp add: waiting_state_def set_http_calls_def root_state_def)
  have i: "invoked waiting_state = []"
    by (simp add: waiting_state_def root_state_def empty_Runtime_def)
  have p: "pending waiting_state 0 = [(7, \<lparr>origin_context = 0, cb = 3\<rparr>)]"
    by (simp add: pending_def this_root_waiting_state)
  note t = onHttpCallResponse_correlates [OF this_root_waiting_state,
      of 7 "\<lparr>origin_context = 0, cb = 3\<rparr>" 11 12 13 9]
  show ?thesis
    using this_root_waiting_state h t
    by (auto simp add: i p Map_delete_def)
qed

lemma issue_two_calls:
  "fst (issue 0 two_calls root_state) = [Inr Ok, Inr Ok]"
proof -
  let ?h7 = "answering_host [] 7" and ?h8 = "answering_host [] 8"
  have c7: "proxy_http_call ?h7 (String_UTF8_encode ''cluster'') [0, 0, 0, 0] [] [0, 0, 0, 0] 10
            = (Ok, 7)"
    by (simp add: answering_host_def)
  have c8: "proxy_http_call ?h8 (String_UTF8_encode ''cluster'') [0, 0, 0, 0] [] [0, 0, 0, 0] 10
            = (Ok, 8)"
    by (simp add: answering_host_def)
  let ?s1 = "snd (httpCall ?h7 0 ''cluster'' [] [] [] 10 0 3 root_state)"
  note a = httpCall_result [OF this_root_root_state serializeHeaders_Nil serializeHeaders_Nil c7,
      of 0 3]
  have r1: "this_root ?s1 0
            = Some ((new_RootContext 1)\<lparr>http_calls :=
                 Map_set (http_calls (new_RootContext 1)) 7 \<lparr>origin_context = 0, cb = 3\<rparr>\<rparr>)"
    using a(2) by simp
  note b = httpCall_result [OF r1 serializeHeaders_Nil serializeHeaders_Nil c8, of 0 4]
  show ?thesis
    using a(1) b(1) by (simp add: two_calls_def split_beta)
qed

lemma call_token_two_calls: "map call_token two_calls = [7, 8]"
  by (simp add: two_calls_def call_token_def serializeHeaders_Nil answering_host_def)

text \<open>The amended C3 for two calls, accepted under the tokens 7 and 8.\<close>

theorem teardown_completes_every_call_witness:
  "this_root root_state 0 = Some (new_RootContext 1)
   \<and> http_calls (new_RootContext 1) = []
   \<and> fst (issue 0 two_calls root_state) = [Inr Ok, Inr Ok]
   \<and> map call_token two_calls = [7, 8]
   \<and> (\<exists>s'. onDone 0 (snd (issue 0 two_calls root_state)) = (Inr True, s')
          \<and> invoked s' = [Callback 3 0 0 0 0, Callback 4 0 0 0 0]
          \<and> pending s' 0 = [])"
proof -
  have e: "http_calls (new_RootContext 1) = []"
    by (simp add: new_RootContext_def)
  have i: "issue 0 two_calls root_state
           = (fst (issue 0 two_calls root_state), snd (issue 0 two_calls root_state))"
    by simp
  have ok: "\<forall>res \<in> set (fst (issue 0 two_calls root_state)). res = Inr Ok"
    by (simp add: issue_two_calls)
  have d: "distinct (map call_token two_calls)"
    by (simp add: call_token_two_calls)
  have inv: "invoked root_state = []"
    by (simp add: root_state_def empty_Runtime_def)
  note t = teardown_completes_every_call [OF this_root_root_state e i ok d]
  show ?thesis
    using this_root_root_state e issue_two_calls call_token_two_calls t
    by (simp add: inv two_calls_def cancellation_def)
qed

text \<open>C6: the first call creates the root context of id 1 at address 0; the second returns
  it, with a host that would refuse every call.\<close>

theorem ensureRootContext_idempotent_witness:
  "ensureRootContext plugin_host 1 registry_start
     = (Inr 0, snd (ensureRootContext plugin_host 1 registry_start))
   \<and> (\<exists>s2. ensureRootContext failing_host 1 (snd (ensureRootContext plugin_host 1 registry_start))
               = (Inr 0, s2)
          \<and> context_map s2 = [(1, 0)]
          \<and> invoked s2 = [Factory ''p'' 1]
          \<and> next_ref s2 = 1)"
proof -
  let ?s1 = "snd (ensureRootContext plugin_host 1 registry_start)"
  have a0: "\<not> Map_has (context_map registry_start) 1"
    by (simp add: registry_start_fields Map_has_def)
  have f0: "map_of (root_context_factory_map registry_start) ''p'' = Some new_RootContext"
    by (simp add: registry_start_fields)
  note c = ensureRootContext_creates [OF a0 f0]
  have first: "ensureRootContext plugin_host 1 registry_start = (Inr 0, ?s1)"
    using c(1) by (simp add: registry_start_fields prod_eq_iff)
  have cm: "context_map ?s1 = [(1, 0)]" and iv: "invoked ?s1 = [Factory ''p'' 1]"
    and nr: "next_ref ?s1 = 1"
    using c(2,3,4) by (simp_all add: registry_start_fields)
  note t = ensureRootContext_idempotent [OF first, of failing_host]
  show ?thesis
    using first t cm iv nr by auto
qed

text \<open>The amended C7 at the calls of the spec's scenario.\<close>

theorem ensureContext_keeps_existing_context_witness:
  "registry_wf registry_start
   \<and> ensureContext plugin_host 5 1 registry_start
       = (Inr (), snd (ensureContext plugin_host 5 1 registry_start))
   \<and> map_of (context_map (snd (ensureContext plugin_host 5 1 registry_start))) 5 = Some 1
   \<and> map_of (context_map (snd (ensureContext plugin_host 5 2
                 (snd (ensureContext plugin_host 5 1 registry_start))))) 5 = Some 1
   \<and> heap (snd (ensureContext plugin_host 5 2
                 (snd (ensureContext plugin_host 5 1 registry_start)))) 1
       = heap (snd (ensureContext plugin_host 5 1 registry_start)) 1
   \<and> created_contexts (snd (ensureContext plugin_host 5 2
                 (snd (ensureContext plugin_host 5 1 registry_start))))
       = created_contexts (snd (ensureContext plugin_host 5 1 registry_start))"
proof -
  let ?s1 = "snd (ensureContext plugin_host 5 1 registry_start)"
  let ?r2 = "ensureContext plugin_host 5 2 ?s1"
  have a0: "\<not> Map_has (context_map registry_start) 1" "\<not> Map_has (context_map registry_start) 5"
    by (simp_all add: registry_start_fields Map_has_def)
  have f0: "map_of (root_context_factory_map registry_start) ''p'' = Some new_RootContext"
    by (simp add: registry_start_fields)
  have first: "ensureContext plugin_host 5 1 registry_start = (Inr (), ?s1)"
    using ensureContext_with_new_root(1) [OF a0(1) f0, of 5]
    by (simp add: prod_eq_iff)
  have second: "?r2 = (fst ?r2, snd ?r2)"
    by simp
  have cm1: "context_map ?s1 = [(1, 0), (5, 1)]"
    using ensureContext_with_new_root(4) [OF a0(1) f0, of 5] a0(2)
    by (simp add: registry_start_fields)
  note t = ensureContext_keeps_existing_context [OF registry_start_fields(5) first second]
  show ?thesis
    using registry_start_fields(5) first t cm1 by auto
qed

text \<open>C8 with no factory registered and the plugin root name \<open>p\<close>.\<close>

theorem ensureRootContext_missing_factory_witness:
  "\<not> Map_has (context_map empty_Runtime) 1
   \<and> fst (get_plugin_root_id plugin_host empty_Runtime) = Inr ''p''
   \<and> \<not> Map_has (root_context_factory_map empty_Runtime) ''p''
   \<and> fst (ensureRootContext plugin_host 1 empty_Runtime)
       = Inl (Error ''Missing root context factory for root id: p'')
   \<and> context_map (snd (ensureRootContext plugin_host 1 empty_Runtime)) = []"
proof -
  have a: "\<not> Map_has (context_map empty_Runtime) 1"
    and m: "\<not> Map_has (root_context_factory_map empty_Runtime) ''p''"
    by (simp_all add: empty_Runtime_def Map_has_def)
  note t = ensureRootContext_missing_factory [OF a plugin_root_id m]
  show ?thesis
    using a m plugin_root_id [of empty_Runtime] t
    by (simp add: empty_Runtime_def)
qed

end
